theory Spec2Isabelle
  imports Main "HOL-Library.Word"
begin

section \<open>Bytes, fixed-width integers and text conversions\<close>

text \<open>
  A file is the list of its bytes and a \<^verbatim>\<open>std::string\<close> is a list of bytes too:
  both are \<^typ>\<open>string\<close>.  The writer and the readers move fixed-width integers with
  \<^verbatim>\<open>write(reinterpret_cast<const char*>(&x), sizeof(x))\<close> and the matching
  \<^verbatim>\<open>read\<close>, so the bytes of a value are its object representation; the model takes
  the little-endian one (least significant byte first).
\<close>

fun le_bytes :: "nat \<Rightarrow> nat \<Rightarrow> string" where
  "le_bytes 0 n = []"
| "le_bytes (Suc k) n = char_of n # le_bytes k (n div 256)"

fun le_value :: "string \<Rightarrow> nat" where
  "le_value [] = 0"
| "le_value (b # bs) = of_char b + 256 * le_value bs"

definition bytes_u16 :: "16 word \<Rightarrow> string" where
  "bytes_u16 w = le_bytes 2 (unat w)"

definition bytes_u32 :: "32 word \<Rightarrow> string" where
  "bytes_u32 w = le_bytes 4 (unat w)"

definition u16_of_bytes :: "string \<Rightarrow> 16 word" where
  "u16_of_bytes bs = of_nat (le_value bs)"

definition u32_of_bytes :: "string \<Rightarrow> 32 word" where
  "u32_of_bytes bs = of_nat (le_value bs)"

text \<open>
  \<^verbatim>\<open>std::getline(stream, field, delim)\<close> on the text that is left in a string stream:
  the characters before the first delimiter, and what follows that delimiter.  Without a
  delimiter the whole rest is taken.  On an exhausted stream nothing is extracted and the
  target keeps its value; every target in this program is a freshly constructed, empty
  string, so the field is empty in that case as well.
\<close>

definition getline :: "char \<Rightarrow> string \<Rightarrow> string \<times> string" where
  "getline delim s = (takeWhile (\<lambda>c. c \<noteq> delim) s, drop 1 (dropWhile (\<lambda>c. c \<noteq> delim) s))"

text \<open>The character classes of the classic locale that the stream extractors use.\<close>

definition isspace :: "char \<Rightarrow> bool" where
  "isspace c = (c \<in> set [CHR 0x20, CHR 0x09, CHR 0x0A, CHR 0x0B, CHR 0x0C, CHR 0x0D])"

definition isdigit :: "char \<Rightarrow> bool" where
  "isdigit c = (48 \<le> (of_char c :: nat) \<and> (of_char c :: nat) \<le> 57)"

definition digit_char :: "nat \<Rightarrow> char" where
  "digit_char d = char_of (48 + d)"

definition digit_value :: "char \<Rightarrow> nat" where
  "digit_value c = of_char c - 48"

text \<open>Decimal output of an integer, as \<^verbatim>\<open>operator<<\<close> prints a \<^verbatim>\<open>long long\<close>.\<close>

function show_nat :: "nat \<Rightarrow> string" where
  "show_nat n = (if n < 10 then [digit_char n] else show_nat (n div 10) @ [digit_char (n mod 10)])"
  by pat_completeness auto
termination
  by (relation "measure id") auto

definition show_int :: "int \<Rightarrow> string" where
  "show_int i = (if i < 0 then CHR ''-'' # show_nat (nat (- i)) else show_nat (nat i))"

definition dec_value :: "string \<Rightarrow> nat" where
  "dec_value ds = foldl (\<lambda>v c. 10 * v + digit_value c) 0 ds"

section \<open>Records and the numeric text conversions\<close>

text \<open>
  \<^verbatim>\<open>struct ZipCodeRecord\<close> of \<^verbatim>\<open>buffer.h\<close>.  The two coordinates are \<^verbatim>\<open>double\<close>s; the
  program never computes with them, it only converts them from text (\<^verbatim>\<open>std::stod\<close>) and
  to text (\<^verbatim>\<open>operator<<\<close> on a stream in its default format).  Both conversions belong
  to the C++ library, not to this repository, so the type of coordinates is a parameter
  \<open>'d\<close> and the conversions are passed to every operation that uses them.
\<close>

record 'd ZipCodeRecord =
  zipCode :: string
  placeName :: string
  state :: string
  county :: string
  latitude :: 'd
  longitude :: 'd

text \<open>
  \<^verbatim>\<open>std::stod\<close> either converts a prefix of the text, or throws
  \<^verbatim>\<open>std::invalid_argument\<close> (no conversion could be performed), or throws
  \<^verbatim>\<open>std::out_of_range\<close>.
\<close>

datatype 'd conversion = Converted 'd | NoConversion | RangeError

record 'd numeric_text =
  stod :: "string \<Rightarrow> 'd conversion"
  put_double :: "'d \<Rightarrow> string"
  zero_double :: 'd

datatype exception = invalid_argument | out_of_range | runtime_error string

text \<open>
  What a call can do: return a value, leave by an exception, or run into undefined
  behaviour (a binary read that did not complete leaves its variable indeterminate, and
  the code goes on to use it).
\<close>

datatype 'a outcome = Returns 'a | Throws exception | Undefined

text \<open>
  The record text of \<^verbatim>\<open>convertToLengthIndicatedFile\<close> (the \<^verbatim>\<open>ostringstream\<close> of its
  loop body): the six fields joined by commas.
\<close>

definition encode :: "'d numeric_text \<Rightarrow> 'd ZipCodeRecord \<Rightarrow> string" where
  "encode lib r =
     zipCode r @ '','' @ placeName r @ '','' @ state r @ '','' @ county r @ '','' @
     put_double lib (latitude r) @ '','' @ put_double lib (longitude r)"

text \<open>The six \<^verbatim>\<open>std::getline(ss, field, ',')\<close> calls that every reader makes on a record text.\<close>

definition split_fields :: "string \<Rightarrow> string \<times> string \<times> string \<times> string \<times> string \<times> string" where
  "split_fields s =
     (let (zc, s1) = getline CHR '','' s;
          (pn, s2) = getline CHR '','' s1;
          (st, s3) = getline CHR '','' s2;
          (cn, s4) = getline CHR '','' s3;
          (lat, s5) = getline CHR '','' s4;
          (lng, s6) = getline CHR '','' s5
      in (zc, pn, st, cn, lat, lng))"

text \<open>
  A \<^verbatim>\<open>try\<close> block that assigns latitude, then longitude: the first conversion that throws
  decides the exception, and the second conversion is not reached.
\<close>

definition both_coordinates :: "'d conversion \<Rightarrow> 'd conversion \<Rightarrow> exception + ('d \<times> 'd)" where
  "both_coordinates a b =
     (case a of
        NoConversion \<Rightarrow> Inl invalid_argument
      | RangeError \<Rightarrow> Inl out_of_range
      | Converted x \<Rightarrow>
          (case b of
             NoConversion \<Rightarrow> Inl invalid_argument
           | RangeError \<Rightarrow> Inl out_of_range
           | Converted y \<Rightarrow> Inr (x, y)))"

text \<open>
  Decoding a frame payload, as \<^verbatim>\<open>loadFromLengthIndicatedFile\<close> and
  \<^verbatim>\<open>readRecordAtOffset\<close> both do it: split, then \<^verbatim>\<open>std::stod\<close> on the fifth and sixth
  field.  The result is the record, or the exception that \<^verbatim>\<open>std::stod\<close> threw.
\<close>

definition decode :: "'d numeric_text \<Rightarrow> string \<Rightarrow> exception + 'd ZipCodeRecord" where
  "decode lib s =
     (case split_fields s of (zc, pn, st, cn, lat, lng) \<Rightarrow>
        (case both_coordinates (stod lib lat) (stod lib lng) of
           Inl e \<Rightarrow> Inl e
         | Inr (x, y) \<Rightarrow>
             Inr \<lparr>zipCode = zc, placeName = pn, state = st, county = cn,
                  latitude = x, longitude = y\<rparr>))"

text \<open>
  The same for a line of the CSV file in \<^verbatim>\<open>loadFromCSV\<close>, where an empty coordinate
  field is not converted but set to \<^verbatim>\<open>0.0\<close>.
\<close>

definition csv_coordinate :: "'d numeric_text \<Rightarrow> string \<Rightarrow> 'd conversion" where
  "csv_coordinate lib s = (if s \<noteq> [] then stod lib s else Converted (zero_double lib))"

definition decode_csv :: "'d numeric_text \<Rightarrow> string \<Rightarrow> exception + 'd ZipCodeRecord" where
  "decode_csv lib s =
     (case split_fields s of (zc, pn, st, cn, lat, lng) \<Rightarrow>
        (case both_coordinates (csv_coordinate lib lat) (csv_coordinate lib lng) of
           Inl e \<Rightarrow> Inl e
         | Inr (x, y) \<Rightarrow>
             Inr \<lparr>zipCode = zc, placeName = pn, state = st, county = cn,
                  latitude = x, longitude = y\<rparr>))"

text \<open>
  An instance of the conversions for worked examples: coordinates that are whole numbers.
  \<open>stod_whole\<close> follows the C grammar as far as whole numbers go (leading white space,
  an optional sign, decimal digits; the longest such prefix is converted and no digit
  means no conversion) and \<open>show_int\<close> prints the digits.  On whole numbers below
  \<open>10\<^sup>6\<close> in magnitude, written without fraction or exponent, both agree with the C++
  library (a \<^verbatim>\<open>double\<close> holds such a number exactly and the default precision of six
  digits prints it in full); the examples below stay in that range.
\<close>

definition stod_whole :: "string \<Rightarrow> int conversion" where
  "stod_whole s =
     (let s1 = dropWhile isspace s;
          (neg, s2) = (case s1 of
                         c # t \<Rightarrow> if c = CHR ''-'' then (True, t)
                                  else if c = CHR ''+'' then (False, t) else (False, s1)
                       | [] \<Rightarrow> (False, s1));
          ds = takeWhile isdigit s2
      in if ds = [] then NoConversion
         else Converted (if neg then - int (dec_value ds) else int (dec_value ds)))"

definition whole_numbers :: "int numeric_text" where
  "whole_numbers = \<lparr>stod = stod_whole, put_double = show_int, zero_double = 0\<rparr>"

section \<open>Files and binary input streams\<close>

text \<open>
  The file system maps a path to the bytes of the file there.  An \<^verbatim>\<open>ifstream\<close> opens
  exactly when the path has a file; whether an \<^verbatim>\<open>ofstream\<close> opens on a path is a
  property of the file system (\<open>can_write\<close>), and opening truncates the file.
\<close>

record filesystem =
  files :: "string \<rightharpoonup> string"
  can_write :: "string \<Rightarrow> bool"

text \<open>
  A binary input stream: the bytes of the file, the read position and whether the stream
  is still \<^verbatim>\<open>good()\<close>.  Every extraction starts with a sentry that does nothing on a
  stream that is no longer good, and an extraction that meets the end of the file before it
  has what it wants leaves the stream not good.
\<close>

record ifstream =
  content :: string
  gpos :: nat
  good :: bool

definition open_stream :: "string \<Rightarrow> ifstream" where
  "open_stream c = \<lparr>content = c, gpos = 0, good = True\<rparr>"

definition stream_getline :: "char \<Rightarrow> ifstream \<Rightarrow> string \<times> ifstream" where
  "stream_getline delim s =
     (if \<not> good s then ([], s)
      else
        let rest = drop (gpos s) (content s);
            tok = takeWhile (\<lambda>c. c \<noteq> delim) rest
        in if length tok < length rest then (tok, s\<lparr>gpos := gpos s + length tok + 1\<rparr>)
           else (tok, s\<lparr>gpos := gpos s + length tok, good := False\<rparr>))"

text \<open>\<^verbatim>\<open>read(p, n)\<close>: the bytes that were extracted, fewer than \<open>n\<close> at the end of the file.\<close>

definition stream_read :: "nat \<Rightarrow> ifstream \<Rightarrow> string \<times> ifstream" where
  "stream_read n s =
     (if \<not> good s then ([], s)
      else
        let rest = drop (gpos s) (content s)
        in if n \<le> length rest then (take n rest, s\<lparr>gpos := gpos s + n\<rparr>)
           else (rest, s\<lparr>gpos := gpos s + length rest, good := False\<rparr>))"

text \<open>
  Reading into a \<^verbatim>\<open>uint16_t\<close> or \<^verbatim>\<open>uint32_t\<close> variable that has no initialiser: after
  an incomplete read the variable is indeterminate (\<open>None\<close>).
\<close>

definition read_u16 :: "ifstream \<Rightarrow> 16 word option \<times> ifstream" where
  "read_u16 s =
     (case stream_read 2 s of
        (bs, s') \<Rightarrow> (if length bs = 2 then Some (u16_of_bytes bs) else None, s'))"

definition read_u32 :: "ifstream \<Rightarrow> 32 word option \<times> ifstream" where
  "read_u32 s =
     (case stream_read 4 s of
        (bs, s') \<Rightarrow> (if length bs = 4 then Some (u32_of_bytes bs) else None, s'))"

text \<open>
  \<^verbatim>\<open>std::vector<char> buffer(n); stream.read(buffer.data(), n);\<close> and the string made
  of the whole buffer: the vector starts as \<open>n\<close> zero bytes, so bytes that the read did not
  deliver stay zero.
\<close>

definition read_buffer :: "nat \<Rightarrow> ifstream \<Rightarrow> string \<times> ifstream" where
  "read_buffer n s =
     (case stream_read n s of
        (bs, s') \<Rightarrow> (bs @ replicate (n - length bs) (CHR 0x00), s'))"

definition tellg :: "ifstream \<Rightarrow> int" where
  "tellg s = (if good s then int (gpos s) else - 1)"

definition seekg :: "int \<Rightarrow> ifstream \<Rightarrow> ifstream" where
  "seekg off s = (if off < 0 then s\<lparr>good := False\<rparr> else s\<lparr>gpos := nat off\<rparr>)"

text \<open>
  The four reads at the head of \<^verbatim>\<open>loadFromLengthIndicatedFile\<close>,
  \<^verbatim>\<open>createPrimaryKeyIndex\<close> and \<^verbatim>\<open>displayHeaderInfo\<close>: the file type up to its zero
  byte, then version, header size and record count.
\<close>

definition read_header ::
  "ifstream \<Rightarrow> string \<times> 16 word option \<times> 32 word option \<times> 32 word option \<times> ifstream" where
  "read_header s =
     (let (fileType, s1) = stream_getline (CHR 0x00) s;
          (version, s2) = read_u16 s1;
          (headerSize, s3) = read_u32 s2;
          (recordCount, s4) = read_u32 s3
      in (fileType, version, headerSize, recordCount, s4))"

section \<open>The operations of \<^verbatim>\<open>Buffer\<close>\<close>

text \<open>
  The state of a \<^verbatim>\<open>Buffer\<close> is its \<^verbatim>\<open>records\<close> vector.  An operation that changes it
  takes the vector and returns the new one beside its outcome, also when it leaves by an
  exception: the records pushed before the throw stay in the buffer.  Console output is
  modelled only where a result depends on it.
\<close>

subsection \<open>\<^verbatim>\<open>loadFromCSV\<close>\<close>

text \<open>
  The loop \<^verbatim>\<open>while (std::getline(file, line))\<close> over the text that is left.  It ends
  when nothing is left; \<^verbatim>\<open>std::invalid_argument\<close> is caught and skips the line, any
  other exception leaves the function.
\<close>

function csv_lines ::
  "'d numeric_text \<Rightarrow> string \<Rightarrow> 'd ZipCodeRecord list \<Rightarrow> bool outcome \<times> 'd ZipCodeRecord list" where
  "csv_lines lib rest records =
     (if rest = [] then (Returns True, records)
      else
        (case decode_csv lib (fst (getline (CHR 0x0A) rest)) of
           Inl invalid_argument \<Rightarrow> csv_lines lib (snd (getline (CHR 0x0A) rest)) records
         | Inl e \<Rightarrow> (Throws e, records)
         | Inr record \<Rightarrow> csv_lines lib (snd (getline (CHR 0x0A) rest)) (records @ [record])))"
  by pat_completeness auto
termination
proof (relation "measure (\<lambda>(lib, rest, records). length rest)")
  show "wf (measure (\<lambda>(lib, rest, records). length rest))"
    by simp
next
  fix lib :: "'d numeric_text" and rest :: string and records :: "'d ZipCodeRecord list"
    and x and e :: exception
  assume "rest \<noteq> []"
  then have "length (snd (getline (CHR 0x0A) rest)) < length rest"
    by (cases rest) (auto simp: getline_def intro: le_imp_less_Suc length_dropWhile_le diff_le_self le_trans)
  then show "((lib, snd (getline (CHR 0x0A) rest), records), (lib, rest, records))
      \<in> measure (\<lambda>(lib, rest, records). length rest)"
    by simp
next
  fix lib :: "'d numeric_text" and rest :: string and records :: "'d ZipCodeRecord list"
    and x and r :: "'d ZipCodeRecord"
  assume "rest \<noteq> []"
  then have "length (snd (getline (CHR 0x0A) rest)) < length rest"
    by (cases rest) (auto simp: getline_def intro: le_imp_less_Suc length_dropWhile_le diff_le_self le_trans)
  then show "((lib, snd (getline (CHR 0x0A) rest), records @ [r]), (lib, rest, records))
      \<in> measure (\<lambda>(lib, rest, records). length rest)"
    by simp
qed

text \<open>The first \<^verbatim>\<open>std::getline\<close> skips the header line of the CSV file.\<close>

definition loadFromCSV ::
  "'d numeric_text \<Rightarrow> filesystem \<Rightarrow> string \<Rightarrow> 'd ZipCodeRecord list
    \<Rightarrow> bool outcome \<times> 'd ZipCodeRecord list" where
  "loadFromCSV lib fs filename records =
     (case files fs filename of
        None \<Rightarrow> (Returns False, records)
      | Some text \<Rightarrow> csv_lines lib (snd (getline (CHR 0x0A) text)) records)"

subsection \<open>\<^verbatim>\<open>getRecordByZip\<close>\<close>

definition getRecordByZip :: "'d ZipCodeRecord list \<Rightarrow> string \<Rightarrow> 'd ZipCodeRecord option" where
  "getRecordByZip records zip_code = find (\<lambda>record. zipCode record = zip_code) records"

subsection \<open>\<^verbatim>\<open>convertToLengthIndicatedFile\<close>\<close>

text \<open>One turn of the writing loop: the length of the record text, then the text.\<close>

definition write_record :: "'d numeric_text \<Rightarrow> string \<Rightarrow> 'd ZipCodeRecord \<Rightarrow> string" where
  "write_record lib out record =
     (let recordString = encode lib record;
          recordLength = (of_nat (length recordString) :: 32 word)
      in out @ bytes_u32 recordLength @ recordString)"

definition written_header :: "'d ZipCodeRecord list \<Rightarrow> string" where
  "written_header records =
     (let fileType = ''ZipCodeLengthIndicated'';
          version = (1 :: 16 word);
          headerSize = (of_nat (length fileType + 1 + 2 + 4 + 4) :: 32 word);
          recordCount = (of_nat (length records) :: 32 word)
      in fileType @ [CHR 0x00] @ bytes_u16 version @ bytes_u32 headerSize @ bytes_u32 recordCount)"

definition written_store :: "'d numeric_text \<Rightarrow> 'd ZipCodeRecord list \<Rightarrow> string" where
  "written_store lib records = foldl (write_record lib) (written_header records) records"

definition convertToLengthIndicatedFile ::
  "'d numeric_text \<Rightarrow> filesystem \<Rightarrow> string \<Rightarrow> string \<Rightarrow> 'd ZipCodeRecord list
    \<Rightarrow> bool \<times> filesystem" where
  "convertToLengthIndicatedFile lib fs inputFilename outputFilename records =
     (if \<not> can_write fs outputFilename then (False, fs)
      else (True, fs\<lparr>files := (files fs)(outputFilename \<mapsto> written_store lib records)\<rparr>))"

subsection \<open>\<^verbatim>\<open>loadFromLengthIndicatedFile\<close>\<close>

text \<open>
  The loop \<^verbatim>\<open>for (uint32_t i = 0; i < recordCount; ++i)\<close> with the turns that are left.
\<close>

fun load_frames ::
  "'d numeric_text \<Rightarrow> nat \<Rightarrow> ifstream \<Rightarrow> 'd ZipCodeRecord list
    \<Rightarrow> bool outcome \<times> 'd ZipCodeRecord list" where
  "load_frames lib 0 s records = (Returns True, records)"
| "load_frames lib (Suc n) s records =
     (case read_u32 s of
        (None, s1) \<Rightarrow> (Undefined, records)
      | (Some recordLength, s1) \<Rightarrow>
          (case read_buffer (unat recordLength) s1 of
             (recordString, s2) \<Rightarrow>
               (case decode lib recordString of
                  Inl invalid_argument \<Rightarrow> load_frames lib n s2 records
                | Inl e \<Rightarrow> (Throws e, records)
                | Inr record \<Rightarrow> load_frames lib n s2 (records @ [record]))))"

text \<open>The header fields are printed before the loop, so all of them are used.\<close>

definition loadFromLengthIndicatedFile ::
  "'d numeric_text \<Rightarrow> filesystem \<Rightarrow> string \<Rightarrow> 'd ZipCodeRecord list
    \<Rightarrow> bool outcome \<times> 'd ZipCodeRecord list" where
  "loadFromLengthIndicatedFile lib fs filename records =
     (case files fs filename of
        None \<Rightarrow> (Returns False, records)
      | Some bytes \<Rightarrow>
          (case read_header (open_stream bytes) of
             (fileType, Some version, Some headerSize, Some recordCount, s) \<Rightarrow>
               load_frames lib (unat recordCount) s records
           | _ \<Rightarrow> (Undefined, records)))"

subsection \<open>\<^verbatim>\<open>createPrimaryKeyIndex\<close>\<close>

text \<open>
  One line of the index, as \<^verbatim>\<open>indexFile << zipCode << " " << fileOffset << "\n"\<close>
  writes it.
\<close>

definition index_line :: "string \<Rightarrow> int \<Rightarrow> string" where
  "index_line zip_code fileOffset = zip_code @ '' '' @ show_int fileOffset @ [CHR 0x0A]"

text \<open>The loop over the frames, with the turns that are left and the index text so far.\<close>

fun index_frames :: "nat \<Rightarrow> ifstream \<Rightarrow> string \<Rightarrow> string outcome" where
  "index_frames 0 s out = Returns out"
| "index_frames (Suc n) s out =
     (let fileOffset = tellg s
      in (case read_u32 s of
            (None, s1) \<Rightarrow> Undefined
          | (Some recordLength, s1) \<Rightarrow>
              (case read_buffer (unat recordLength) s1 of
                 (recordString, s2) \<Rightarrow>
                   index_frames n s2
                     (out @ index_line (fst (getline CHR '','' recordString)) fileOffset))))"

text \<open>
  Opening the index for writing truncates it before the first byte of the data file is
  read, so a data file under the same path is read as empty.  Of the header only the
  record count is used.
\<close>

definition createPrimaryKeyIndex ::
  "filesystem \<Rightarrow> string \<Rightarrow> string \<Rightarrow> bool outcome \<times> filesystem" where
  "createPrimaryKeyIndex fs dataFilename indexFilename =
     (case files fs dataFilename of
        None \<Rightarrow> (Returns False, fs)
      | Some bytes \<Rightarrow>
          (if \<not> can_write fs indexFilename then (Returns False, fs)
           else
             (let fs1 = fs\<lparr>files := (files fs)(indexFilename \<mapsto> [])\<rparr>;
                  data = (if dataFilename = indexFilename then [] else bytes)
              in (case read_header (open_stream data) of
                    (fileType, version, headerSize, None, s) \<Rightarrow> (Undefined, fs1)
                  | (fileType, version, headerSize, Some recordCount, s) \<Rightarrow>
                      (case index_frames (unat recordCount) s [] of
                         Returns text \<Rightarrow>
                           (Returns True, fs\<lparr>files := (files fs)(indexFilename \<mapsto> text)\<rparr>)
                       | Throws e \<Rightarrow> (Throws e, fs1)
                       | Undefined \<Rightarrow> (Undefined, fs1))))))"

subsection \<open>\<^verbatim>\<open>searchPrimaryKey\<close>\<close>

text \<open>
  \<^verbatim>\<open>stream >> fileOffset\<close> for a \<^verbatim>\<open>std::streamoff\<close>, after the white space has been
  skipped: an optional sign and decimal digits.  The extraction fails without a digit and
  when the number does not fit the signed 64-bit type.
\<close>

definition get_streamoff :: "string \<Rightarrow> (int \<times> string) option" where
  "get_streamoff s =
     (let (neg, s1) = (case s of
                         c # t \<Rightarrow> if c = CHR ''-'' then (True, t)
                                  else if c = CHR ''+'' then (False, t) else (False, s)
                       | [] \<Rightarrow> (False, s));
          ds = takeWhile isdigit s1;
          v = (if neg then - int (dec_value ds) else int (dec_value ds))
      in if ds = [] \<or> v < - (2 ^ 63) \<or> 2 ^ 63 \<le> v then None
         else Some (v, dropWhile isdigit s1))"

text \<open>
  The loop \<^verbatim>\<open>while (indexFile >> currentZipCode >> fileOffset)\<close> on the text that is
  left: skip white space and take the characters up to the next white space as the key,
  skip white space and extract the offset.  The loop ends, and \<open>-1\<close> is returned, as soon
  as one of the two extractions fails.
\<close>

function index_scan :: "string \<Rightarrow> string \<Rightarrow> int" where
  "index_scan rest zip_code =
     (let r1 = dropWhile isspace rest
      in if r1 = [] then - 1
         else
           let currentZipCode = takeWhile (\<lambda>c. \<not> isspace c) r1;
               r2 = dropWhile isspace (dropWhile (\<lambda>c. \<not> isspace c) r1)
           in (case get_streamoff r2 of
                 None \<Rightarrow> - 1
               | Some (fileOffset, r3) \<Rightarrow>
                   if currentZipCode = zip_code then fileOffset else index_scan r3 zip_code))"
  by pat_completeness auto
termination
proof (relation "measure (\<lambda>(rest, zip_code). length rest)")
  show "wf (measure (\<lambda>(rest, zip_code). length rest))"
    by simp
next
  fix rest zip_code :: string and r1 currentZipCode r2 :: string
    and x2 :: "int \<times> string" and fileOffset :: int and r3 :: string
  assume r1: "r1 = dropWhile isspace rest" and ne: "r1 \<noteq> []"
    and r2: "r2 = dropWhile isspace (dropWhile (\<lambda>c. \<not> isspace c) r1)"
    and g: "get_streamoff r2 = Some x2" and x2: "(fileOffset, r3) = x2"
  have a: "length r1 \<le> length rest"
    unfolding r1 by (rule length_dropWhile_le)
  from ne have "\<not> isspace (hd r1)"
    unfolding r1 by (rule hd_dropWhile)
  with ne have "length (dropWhile (\<lambda>c. \<not> isspace c) r1) < length r1"
    by (cases r1) (auto intro: le_imp_less_Suc length_dropWhile_le)
  moreover have "length r2 \<le> length (dropWhile (\<lambda>c. \<not> isspace c) r1)"
    unfolding r2 by (rule length_dropWhile_le)
  ultimately have b: "length r2 < length r1"
    by simp
  have "length (dropWhile isdigit t) \<le> length t" for t :: string
    by (rule length_dropWhile_le)
  then have "length (dropWhile isdigit t) \<le> Suc (length t)" for t :: string
    by (rule le_SucI)
  with g x2 have "length r3 \<le> length r2"
    by (auto simp: get_streamoff_def Let_def length_dropWhile_le split: list.splits if_splits)
  with a b show "((r3, zip_code), (rest, zip_code)) \<in> measure (\<lambda>(rest, zip_code). length rest)"
    by simp
qed

text \<open>
  The offset, or \<open>-1\<close>; beside it the lines written to \<^verbatim>\<open>std::cerr\<close>.
\<close>

definition searchPrimaryKey :: "filesystem \<Rightarrow> string \<Rightarrow> string \<Rightarrow> int \<times> string list" where
  "searchPrimaryKey fs indexFilename zip_code =
     (case files fs indexFilename of
        None \<Rightarrow> (- 1, [''Unable to open index file: '' @ indexFilename])
      | Some text \<Rightarrow> (index_scan text zip_code, []))"

subsection \<open>\<^verbatim>\<open>readRecordAtOffset\<close>\<close>

definition readRecordAtOffset ::
  "'d numeric_text \<Rightarrow> filesystem \<Rightarrow> string \<Rightarrow> int \<Rightarrow> 'd ZipCodeRecord outcome" where
  "readRecordAtOffset lib fs dataFilename fileOffset =
     (case files fs dataFilename of
        None \<Rightarrow> Throws (runtime_error ''Failed to open data file'')
      | Some bytes \<Rightarrow>
          (case read_u32 (seekg fileOffset (open_stream bytes)) of
             (None, s1) \<Rightarrow> Undefined
           | (Some recordLength, s1) \<Rightarrow>
               (case read_buffer (unat recordLength) s1 of
                  (recordString, s2) \<Rightarrow>
                    (case decode lib recordString of
                       Inl e \<Rightarrow> Throws e
                     | Inr record \<Rightarrow> Returns record))))"

subsection \<open>\<^verbatim>\<open>searchZipCode\<close> of \<^verbatim>\<open>main.cpp\<close>\<close>

text \<open>
  What the caller of the lookup shows: the record that was read, or the line
  \<^verbatim>\<open>Zip Code ... not found.\<close>  An exception of \<^verbatim>\<open>readRecordAtOffset\<close> is not caught here.
\<close>

datatype 'd shown = RecordPrinted "'d ZipCodeRecord" | NotFoundPrinted string

definition searchZipCode ::
  "'d numeric_text \<Rightarrow> filesystem \<Rightarrow> string \<Rightarrow> 'd shown outcome \<times> string list" where
  "searchZipCode lib fs zip_code =
     (let dataFile = ''us_postal_codes.dat'';
          indexFile = ''primary_key_index.dat'';
          (offset, cerr) = searchPrimaryKey fs indexFile zip_code
      in if offset \<noteq> - 1 then
           (case readRecordAtOffset lib fs dataFile offset of
              Returns record \<Rightarrow> (Returns (RecordPrinted record), cerr)
            | Throws e \<Rightarrow> (Throws e, cerr)
            | Undefined \<Rightarrow> (Undefined, cerr))
         else (Returns (NotFoundPrinted zip_code), cerr))"

section \<open>The file formats, as the specification describes them\<close>

text \<open>
  The definitions of this section are not translations of code.  They say what the
  specification means by a store that holds its header and its frames in full, by the
  lines of a text file and by the first matching index entry, so that the operations
  above can be compared with them.
\<close>

text \<open>
  \<open>frames_at n p bytes\<close>: the \<open>n\<close> frames that lie in \<open>bytes\<close> from position \<open>p\<close> on,
  each as the position of its length field and its payload; \<open>None\<close> when the bytes end
  before the \<open>n\<close>-th frame does.
\<close>

fun frames_at :: "nat \<Rightarrow> nat \<Rightarrow> string \<Rightarrow> (nat \<times> string) list option" where
  "frames_at 0 p bytes = Some []"
| "frames_at (Suc n) p bytes =
     (if length bytes < p + 4 then None
      else
        (let len = unat (u32_of_bytes (take 4 (drop p bytes)))
         in if length bytes < p + 4 + len then None
            else map_option (Cons (p, take len (drop (p + 4) bytes)))
                   (frames_at n (p + 4 + len) bytes)))"

text \<open>
  A store that is complete: a type tag with its zero byte, ten bytes of version, header
  length and record count, and as many frames as the record count declares.  The result
  is the declared record count and the frames.
\<close>

definition store_layout :: "string \<Rightarrow> (32 word \<times> (nat \<times> string) list) option" where
  "store_layout bytes =
     (let p = length (takeWhile (\<lambda>c. c \<noteq> CHR 0x00) bytes) + 1
      in if length bytes < p + 10 then None
         else
           (let recordCount = u32_of_bytes (take 4 (drop (p + 6) bytes))
            in map_option (Pair recordCount) (frames_at (unat recordCount) (p + 10) bytes)))"

text \<open>The positions of frames with given payloads that follow one another from \<open>p\<close> on.\<close>

fun frame_offsets :: "nat \<Rightarrow> string list \<Rightarrow> nat list" where
  "frame_offsets p [] = []"
| "frame_offsets p (payload # payloads) = p # frame_offsets (p + 4 + length payload) payloads"

text \<open>The key of a frame is the first comma-separated token of its payload.\<close>

definition key_token :: "string \<Rightarrow> string" where
  "key_token payload = fst (getline CHR '','' payload)"

text \<open>The index entries of a list of frames, and the text of an index with given entries.\<close>

definition index_entries :: "(nat \<times> string) list \<Rightarrow> (string \<times> int) list" where
  "index_entries frames = map (\<lambda>(off, payload). (key_token payload, int off)) frames"

definition index_text :: "(string \<times> int) list \<Rightarrow> string" where
  "index_text entries = concat (map (\<lambda>(k, off). index_line k off) entries)"

text \<open>The lines of a text, as successive \<^verbatim>\<open>std::getline\<close> calls deliver them.\<close>

function text_lines :: "string \<Rightarrow> string list" where
  "text_lines s =
     (if s = [] then []
      else fst (getline (CHR 0x0A) s) # text_lines (snd (getline (CHR 0x0A) s)))"
  by pat_completeness auto
termination
proof (relation "measure length")
  show "wf (measure length)"
    by simp
next
  fix s :: string
  assume "s \<noteq> []"
  then have "length (snd (getline (CHR 0x0A) s)) < length s"
    by (cases s) (auto simp: getline_def intro: le_imp_less_Suc length_dropWhile_le diff_le_self le_trans)
  then show "(snd (getline (CHR 0x0A) s), s) \<in> measure length"
    by simp
qed

text \<open>
  The records that a bulk load keeps from a list of texts: a text whose decoding throws
  \<^verbatim>\<open>std::invalid_argument\<close> is passed over, any other exception ends the load.
\<close>

fun keep_decoded ::
  "(string \<Rightarrow> exception + 'r) \<Rightarrow> string list \<Rightarrow> 'r list \<Rightarrow> bool outcome \<times> 'r list" where
  "keep_decoded dec [] records = (Returns True, records)"
| "keep_decoded dec (t # ts) records =
     (case dec t of
        Inl invalid_argument \<Rightarrow> keep_decoded dec ts records
      | Inl e \<Rightarrow> (Throws e, records)
      | Inr record \<Rightarrow> keep_decoded dec ts (records @ [record]))"

definition decoded :: "(string \<Rightarrow> exception + 'r) \<Rightarrow> string list \<Rightarrow> 'r list" where
  "decoded dec ts = concat (map (\<lambda>t. case dec t of Inl e \<Rightarrow> [] | Inr record \<Rightarrow> [record]) ts)"

text \<open>The lookup of the specification: the offset of the first entry with the key.\<close>

definition first_match :: "(string \<times> int) list \<Rightarrow> string \<Rightarrow> int option" where
  "first_match entries k = map_option snd (find (\<lambda>(k', off). k' = k) entries)"

text \<open>A key that \<^verbatim>\<open>operator>>\<close> reads back as one token: not empty, no white space.\<close>

definition token_key :: "string \<Rightarrow> bool" where
  "token_key k = (k \<noteq> [] \<and> list_all (\<lambda>c. \<not> isspace c) k)"

text \<open>An offset that a stream position can be and that fits \<^verbatim>\<open>std::streamoff\<close>.\<close>

definition file_offset :: "int \<Rightarrow> bool" where
  "file_offset off = (0 \<le> off \<and> off < 2 ^ 63)"

section \<open>The example of the specification\<close>

definition example_records :: "int ZipCodeRecord list" where
  "example_records =
     [\<lparr>zipCode = ''00001'', placeName = ''A'', state = ''NY'', county = ''X'',
       latitude = 1, longitude = 2\<rparr>,
      \<lparr>zipCode = ''00002'', placeName = ''B'', state = ''CA'', county = ''Y'',
       latitude = 3, longitude = 4\<rparr>,
      \<lparr>zipCode = ''00003'', placeName = ''C'', state = ''NY'', county = ''Z'',
       latitude = 5, longitude = 6\<rparr>]"

definition example_store :: string where
  "example_store = written_store whole_numbers example_records"

definition example_index :: string where
  "example_index = ''00001 33'' @ [CHR 0x0A] @ ''00002 53'' @ [CHR 0x0A] @ ''00003 73'' @ [CHR 0x0A]"

definition example_fs :: filesystem where
  "example_fs =
     \<lparr>files = [''us_postal_codes.dat'' \<mapsto> example_store,
                ''primary_key_index.dat'' \<mapsto> example_index],
      can_write = (\<lambda>path. True)\<rparr>"

text \<open>
  A store of two frames whose second payload does not decode: its latitude field is empty.
  In \<open>damaged_fs\<close> it is the only file.
\<close>

definition damaged_store :: string where
  "damaged_store =
     ''ZipCodeLengthIndicated'' @ [CHR 0x00] @ bytes_u16 1 @ bytes_u32 33 @ bytes_u32 2 @
     bytes_u32 16 @ ''00001,A,NY,X,1,2'' @ bytes_u32 15 @ ''00002,B,CA,Y,,4''"

definition damaged_fs :: filesystem where
  "damaged_fs =
     \<lparr>files = [''us_postal_codes.dat'' \<mapsto> damaged_store], can_write = (\<lambda>path. True)\<rparr>"

text \<open>
  A CSV file with a header line and three data lines: a complete one, one with an empty
  latitude field and one whose latitude field is \<open>x\<close>.  In \<open>loads_fs\<close> it stands beside
  the damaged store.
\<close>

definition example_csv :: string where
  "example_csv =
     ''ZipCode,Place,State,County,Lat,Long'' @ [CHR 0x0A] @
     ''00004,D,TX,W,7,8'' @ [CHR 0x0A] @
     ''00005,E,WA,V,,9'' @ [CHR 0x0A] @
     ''00006,F,OR,U,x,9'' @ [CHR 0x0A]"

definition loads_fs :: filesystem where
  "loads_fs =
     \<lparr>files = [''us_postal_codes_ROWS_RANDOMIZED.csv'' \<mapsto> example_csv,
                ''us_postal_codes.dat'' \<mapsto> damaged_store],
      can_write = (\<lambda>path. True)\<rparr>"

text \<open>
  A store of one frame whose key token contains a line feed, alone in \<open>newline_key_fs\<close>.
\<close>

definition newline_key_store :: string where
  "newline_key_store =
     ''ZipCodeLengthIndicated'' @ [CHR 0x00] @ bytes_u16 1 @ bytes_u32 33 @ bytes_u32 1 @
     bytes_u32 13 @ ''a'' @ [CHR 0x0A] @ ''b,P,S,C,1,2''"

definition newline_key_fs :: filesystem where
  "newline_key_fs =
     \<lparr>files = [''us_postal_codes.dat'' \<mapsto> newline_key_store], can_write = (\<lambda>path. True)\<rparr>"







section \<open>Basic facts about bytes and lines\<close>

text \<open>
  The equations of the loops are applied where a proof asks for them, not by the
  simplifier on its own.
\<close>

declare show_nat.simps [simp del]
declare csv_lines.simps [simp del]
declare index_scan.simps [simp del]
declare text_lines.simps [simp del]


lemma length_le_bytes: "length (le_bytes k n) = k"
  by (induction k arbitrary: n) simp_all

lemma le_value_le_bytes: "le_value (le_bytes k n) = n mod 256 ^ k"
proof (induction k arbitrary: n)
  case 0
  show ?case by simp
next
  case (Suc k)
  have "n mod (256 * 256 ^ k) = 256 * (n div 256 mod 256 ^ k) + n mod 256"
    by (rule mod_mult2_eq)
  with Suc show ?case by simp
qed

lemma u32_of_bytes_u32: "u32_of_bytes (bytes_u32 w) = w"
proof -
  have "unat w < 2 ^ 32"
    using unsigned_less [of w] by simp
  then have "unat w mod 256 ^ 4 = unat w"
    by simp
  then show ?thesis
    by (simp add: u32_of_bytes_def bytes_u32_def le_value_le_bytes)
qed


lemma length_bytes_u32: "length (bytes_u32 w) = 4"
  by (simp add: bytes_u32_def length_le_bytes)

lemma length_bytes_u16: "length (bytes_u16 w) = 2"
  by (simp add: bytes_u16_def length_le_bytes)

lemma getline_delim: "delim \<notin> set a \<Longrightarrow> getline delim (a @ delim # b) = (a, b)"
  by (induction a) (auto simp: getline_def)

lemma getline_no_delim: "delim \<notin> set a \<Longrightarrow> getline delim a = (a, [])"
  by (induction a) (auto simp: getline_def)

lemma getline_shorter: "s \<noteq> [] \<Longrightarrow> length (snd (getline delim s)) < length s"
  by (cases s) (auto simp: getline_def intro: le_imp_less_Suc length_dropWhile_le diff_le_self le_trans)


lemma split_fields_joined:
  assumes "CHR '','' \<notin> set a" "CHR '','' \<notin> set b" "CHR '','' \<notin> set c"
    "CHR '','' \<notin> set d" "CHR '','' \<notin> set e" "CHR '','' \<notin> set f"
  shows "split_fields (a @ CHR '','' # b @ CHR '','' # c @ CHR '','' # d @ CHR '','' # e @ CHR '','' # f)
    = (a, b, c, d, e, f)"
  using assms by (simp add: split_fields_def getline_delim getline_no_delim)

section \<open>Reading a complete store\<close>

lemma stream_read_complete:
  "good s \<Longrightarrow> gpos s + n \<le> length (content s) \<Longrightarrow>
    stream_read n s = (take n (drop (gpos s) (content s)), s\<lparr>gpos := gpos s + n\<rparr>)"
  by (auto simp: stream_read_def Let_def)

lemma read_u32_complete:
  "good s \<Longrightarrow> gpos s + 4 \<le> length (content s) \<Longrightarrow>
    read_u32 s = (Some (u32_of_bytes (take 4 (drop (gpos s) (content s)))), s\<lparr>gpos := gpos s + 4\<rparr>)"
  by (simp add: read_u32_def stream_read_complete)

lemma read_buffer_complete:
  "good s \<Longrightarrow> gpos s + n \<le> length (content s) \<Longrightarrow>
    read_buffer n s = (take n (drop (gpos s) (content s)), s\<lparr>gpos := gpos s + n\<rparr>)"
  by (simp add: read_buffer_def stream_read_complete)

lemma frames_at_SucE:
  assumes "frames_at (Suc n) p bytes = Some fs"
  obtains payload fs' where "fs = (p, payload) # fs'"
    and "p + 4 + length payload \<le> length bytes"
    and "unat (u32_of_bytes (take 4 (drop p bytes))) = length payload"
    and "payload = take (length payload) (drop (p + 4) bytes)"
    and "frames_at n (p + 4 + length payload) bytes = Some fs'"
proof -
  let ?len = "unat (u32_of_bytes (take 4 (drop p bytes)))"
  from assms have a: "\<not> length bytes < p + 4" and b: "\<not> length bytes < p + 4 + ?len"
    by (auto simp: Let_def split: if_splits)
  with assms obtain fs' where fs': "frames_at n (p + 4 + ?len) bytes = Some fs'"
    and fs: "fs = (p, take ?len (drop (p + 4) bytes)) # fs'"
    by (auto simp: Let_def)
  from b have len: "length (take ?len (drop (p + 4) bytes)) = ?len"
    by simp
  show thesis
  proof (rule that [of "take ?len (drop (p + 4) bytes)" fs'])
    show "fs = (p, take ?len (drop (p + 4) bytes)) # fs'" by (rule fs)
    show "p + 4 + length (take ?len (drop (p + 4) bytes)) \<le> length bytes"
      using b by (simp only: len)
    show "?len = length (take ?len (drop (p + 4) bytes))" by (simp only: len)
    show "take ?len (drop (p + 4) bytes) = take (length (take ?len (drop (p + 4) bytes))) (drop (p + 4) bytes)"
      by (simp only: len)
    show "frames_at n (p + 4 + length (take ?len (drop (p + 4) bytes))) bytes = Some fs'"
      using fs' by (simp only: len)
  qed
qed

lemma read_frame:
  assumes "good s" and "frames_at (Suc n) (gpos s) (content s) = Some fs"
  obtains payload fs' recordLength where "fs = (gpos s, payload) # fs'"
    and "read_u32 s = (Some recordLength, s\<lparr>gpos := gpos s + 4\<rparr>)"
    and "read_buffer (unat recordLength) (s\<lparr>gpos := gpos s + 4\<rparr>)
           = (payload, s\<lparr>gpos := gpos s + 4 + length payload\<rparr>)"
    and "frames_at n (gpos s + 4 + length payload) (content s) = Some fs'"
proof -
  from assms(2) obtain payload fs' where fs: "fs = (gpos s, payload) # fs'"
    and le: "gpos s + 4 + length payload \<le> length (content s)"
    and len: "unat (u32_of_bytes (take 4 (drop (gpos s) (content s)))) = length payload"
    and pl: "payload = take (length payload) (drop (gpos s + 4) (content s))"
    and rest: "frames_at n (gpos s + 4 + length payload) (content s) = Some fs'"
    by (rule frames_at_SucE)
  let ?L = "u32_of_bytes (take 4 (drop (gpos s) (content s)))"
  from assms(1) le have r: "read_u32 s = (Some ?L, s\<lparr>gpos := gpos s + 4\<rparr>)"
    by (simp add: read_u32_complete)
  from assms(1) le pl have b: "read_buffer (unat ?L) (s\<lparr>gpos := gpos s + 4\<rparr>)
      = (payload, s\<lparr>gpos := gpos s + 4 + length payload\<rparr>)"
    by (simp add: read_buffer_complete len add.assoc)
  from fs r b rest show thesis
    by (rule that)
qed

lemma index_frames_layout:
  "good s \<Longrightarrow> frames_at n (gpos s) (content s) = Some fs \<Longrightarrow>
    index_frames n s out = Returns (out @ index_text (index_entries fs))"
proof (induction n arbitrary: s out fs)
  case 0
  then show ?case
    by (simp add: index_text_def index_entries_def)
next
  case (Suc n)
  from Suc.prems obtain payload fs' recordLength where fs: "fs = (gpos s, payload) # fs'"
    and r: "read_u32 s = (Some recordLength, s\<lparr>gpos := gpos s + 4\<rparr>)"
    and b: "read_buffer (unat recordLength) (s\<lparr>gpos := gpos s + 4\<rparr>)
           = (payload, s\<lparr>gpos := gpos s + 4 + length payload\<rparr>)"
    and rest: "frames_at n (gpos s + 4 + length payload) (content s) = Some fs'"
    by (rule read_frame)
  let ?s2 = "s\<lparr>gpos := gpos s + 4 + length payload\<rparr>"
  from Suc.prems(1) rest
  have "index_frames n ?s2 (out @ index_line (key_token payload) (int (gpos s)))
      = Returns ((out @ index_line (key_token payload) (int (gpos s))) @ index_text (index_entries fs'))"
    by (intro Suc.IH) simp_all
  with Suc.prems(1) r b show ?case
    by (simp add: fs tellg_def key_token_def index_text_def index_entries_def)
qed



lemma read_u16_complete:
  "good s \<Longrightarrow> gpos s + 2 \<le> length (content s) \<Longrightarrow>
    read_u16 s = (Some (u16_of_bytes (take 2 (drop (gpos s) (content s)))), s\<lparr>gpos := gpos s + 2\<rparr>)"
  by (simp add: read_u16_def stream_read_complete)

lemma read_header_complete:
  assumes "length (takeWhile (\<lambda>c. c \<noteq> CHR 0x00) bytes) + 11 \<le> length bytes"
  shows "read_header (open_stream bytes) =
    (takeWhile (\<lambda>c. c \<noteq> CHR 0x00) bytes,
     Some (u16_of_bytes (take 2 (drop (length (takeWhile (\<lambda>c. c \<noteq> CHR 0x00) bytes) + 1) bytes))),
     Some (u32_of_bytes (take 4 (drop (length (takeWhile (\<lambda>c. c \<noteq> CHR 0x00) bytes) + 3) bytes))),
     Some (u32_of_bytes (take 4 (drop (length (takeWhile (\<lambda>c. c \<noteq> CHR 0x00) bytes) + 7) bytes))),
     \<lparr>content = bytes, gpos = length (takeWhile (\<lambda>c. c \<noteq> CHR 0x00) bytes) + 11, good = True\<rparr>)"
proof -
  let ?t = "takeWhile (\<lambda>c. c \<noteq> CHR 0x00) bytes"
  let ?s = "\<lambda>k. \<lparr>content = bytes, gpos = length ?t + k, good = True\<rparr>"
  from assms have "stream_getline (CHR 0x00) (open_stream bytes) = (?t, ?s 1)"
    by (simp add: stream_getline_def open_stream_def Let_def)
  moreover from assms have "read_u16 (?s 1)
      = (Some (u16_of_bytes (take 2 (drop (length ?t + 1) bytes))), ?s 3)"
    by (simp add: read_u16_complete)
  moreover from assms have "read_u32 (?s 3)
      = (Some (u32_of_bytes (take 4 (drop (length ?t + 3) bytes))), ?s 7)"
    by (simp add: read_u32_complete)
  moreover from assms have "read_u32 (?s 7)
      = (Some (u32_of_bytes (take 4 (drop (length ?t + 7) bytes))), ?s 11)"
    by (simp add: read_u32_complete)
  ultimately show ?thesis
    by (simp add: read_header_def)
qed

lemma store_layoutE:
  assumes "store_layout bytes = Some (recordCount, frames)"
  obtains fileType version headerSize s where
    "read_header (open_stream bytes) = (fileType, Some version, Some headerSize, Some recordCount, s)"
    and "good s" and "content s = bytes"
    and "frames_at (unat recordCount) (gpos s) bytes = Some frames"
proof -
  let ?t = "takeWhile (\<lambda>c. c \<noteq> CHR 0x00) bytes"
  from assms have le: "length ?t + 11 \<le> length bytes"
    by (auto simp: store_layout_def Let_def split: if_splits)
  with assms have n: "recordCount = u32_of_bytes (take 4 (drop (length ?t + 7) bytes))"
    and fr: "frames_at (unat recordCount) (length ?t + 11) bytes = Some frames"
    by (auto simp: store_layout_def Let_def add.commute split: if_splits)
  show thesis
  proof (rule that)
    show "read_header (open_stream bytes) =
      (?t, Some (u16_of_bytes (take 2 (drop (length ?t + 1) bytes))),
       Some (u32_of_bytes (take 4 (drop (length ?t + 3) bytes))), Some recordCount,
       \<lparr>content = bytes, gpos = length ?t + 11, good = True\<rparr>)"
      unfolding n using le by (rule read_header_complete)
    show "good \<lparr>content = bytes, gpos = length ?t + 11, good = True\<rparr>"
      by simp
    show "content \<lparr>content = bytes, gpos = length ?t + 11, good = True\<rparr> = bytes"
      by simp
    show "frames_at (unat recordCount) (gpos \<lparr>content = bytes, gpos = length ?t + 11, good = True\<rparr>) bytes
        = Some frames"
      using fr by simp
  qed
qed

lemma createPrimaryKeyIndex_layout:
  assumes "files fs dataFilename = Some bytes" and "can_write fs indexFilename"
    and "dataFilename \<noteq> indexFilename"
    and "store_layout bytes = Some (recordCount, frames)"
  shows "createPrimaryKeyIndex fs dataFilename indexFilename =
    (Returns True, fs\<lparr>files := (files fs)(indexFilename \<mapsto> index_text (index_entries frames))\<rparr>)"
proof -
  from assms(4) obtain fileType version headerSize s where
    h: "read_header (open_stream bytes) = (fileType, Some version, Some headerSize, Some recordCount, s)"
    and s: "good s" "content s = bytes"
    and fr: "frames_at (unat recordCount) (gpos s) bytes = Some frames"
    by (rule store_layoutE)
  from s fr have "index_frames (unat recordCount) s [] = Returns ([] @ index_text (index_entries frames))"
    by (intro index_frames_layout) simp_all
  with assms(1-3) h show ?thesis
    by (simp add: createPrimaryKeyIndex_def)
qed


lemma frames_at_length: "frames_at n p bytes = Some fs \<Longrightarrow> length fs = n"
proof (induction n arbitrary: p fs)
  case 0
  then show ?case by simp
next
  case (Suc n)
  from Suc.prems obtain payload fs' where "fs = (p, payload) # fs'"
    and "frames_at n (p + 4 + length payload) bytes = Some fs'"
    by (rule frames_at_SucE)
  with Suc.IH show ?case by simp
qed




section \<open>The record codec\<close>

text \<open>
  C1 (as amended).  Decoding the text of a record gives the record back when no text
  field contains a comma and the library's two conversions agree on both coordinates:
  the text printed for a coordinate has no comma and \<^verbatim>\<open>std::stod\<close> converts it to the
  same value.  (The default stream format prints six significant digits, so a
  coordinate with more digits does not satisfy the second condition.)
\<close>

theorem decode_encode:
  assumes "CHR '','' \<notin> set (zipCode r)" and "CHR '','' \<notin> set (placeName r)"
    and "CHR '','' \<notin> set (state r)" and "CHR '','' \<notin> set (county r)"
    and "CHR '','' \<notin> set (put_double lib (latitude r))"
    and "CHR '','' \<notin> set (put_double lib (longitude r))"
    and "stod lib (put_double lib (latitude r)) = Converted (latitude r)"
    and "stod lib (put_double lib (longitude r)) = Converted (longitude r)"
  shows "decode lib (encode lib r) = Inr r"
  using assms by (simp add: decode_def encode_def split_fields_joined both_coordinates_def)

theorem decode_encode_witness:
  "decode whole_numbers (encode whole_numbers
      \<lparr>zipCode = ''00002'', placeName = ''B'', state = ''CA'', county = ''Y'',
       latitude = 3, longitude = 4\<rparr>)
    = Inr \<lparr>zipCode = ''00002'', placeName = ''B'', state = ''CA'', county = ''Y'',
       latitude = 3, longitude = 4\<rparr>"
proof -
  have lat: "put_double whole_numbers 3 = ''3''" and lng: "put_double whole_numbers 4 = ''4''"
    by code_simp+
  have "stod whole_numbers ''3'' = Converted 3" and "stod whole_numbers ''4'' = Converted 4"
    by code_simp+
  then show ?thesis
    using decode_encode [of "\<lparr>zipCode = ''00002'', placeName = ''B'', state = ''CA'',
      county = ''Y'', latitude = 3, longitude = 4\<rparr>" whole_numbers]
    by (simp add: lat lng)
qed

text \<open>
  The statement of C1 itself fails on a record with a comma in a text field: the place
  name \<open>A,B\<close> is read back as place name \<open>A\<close> and state \<open>B\<close>, and every later field moves
  one place on.
\<close>

theorem decode_encode_counterexample:
  "decode whole_numbers (encode whole_numbers
      \<lparr>zipCode = ''00001'', placeName = ''A,B'', state = ''NY'', county = ''5'',
       latitude = 1, longitude = 2\<rparr>)
    = Inr \<lparr>zipCode = ''00001'', placeName = ''A'', state = ''B'', county = ''NY'',
       latitude = 5, longitude = 1\<rparr>
   \<and> decode whole_numbers (encode whole_numbers
      \<lparr>zipCode = ''00001'', placeName = ''A,B'', state = ''NY'', county = ''5'',
       latitude = 1, longitude = 2\<rparr>)
    \<noteq> Inr \<lparr>zipCode = ''00001'', placeName = ''A,B'', state = ''NY'', county = ''5'',
       latitude = 1, longitude = 2\<rparr>"
  by code_simp

section \<open>The index and the positioned read\<close>




section \<open>One index line per frame\<close>

lemma damaged_layout: "store_layout damaged_store =
    Some (2, [(33, ''00001,A,NY,X,1,2''), (53, ''00002,B,CA,Y,,4'')])"
  by code_simp

lemma text_lines_Nil: "text_lines [] = []"
  by (subst text_lines.simps) simp

lemma text_lines_line:
  assumes "CHR 0x0A \<notin> set l"
  shows "text_lines (l @ CHR 0x0A # rest) = l # text_lines rest"
proof -
  from assms have "getline (CHR 0x0A) (l @ CHR 0x0A # rest) = (l, rest)"
    by (rule getline_delim)
  then show ?thesis
    by (subst text_lines.simps) simp
qed

lemma isdigit_digit_char: "d < 10 \<Longrightarrow> isdigit (digit_char d)"
  by (simp add: isdigit_def digit_char_def)

lemma digit_value_digit_char: "d < 10 \<Longrightarrow> digit_value (digit_char d) = d"
  by (simp add: digit_value_def digit_char_def)

lemma show_nat_digits: "list_all isdigit (show_nat n)"
proof (induction n rule: show_nat.induct)
  case (1 n)
  show ?case
  proof (cases "n < 10")
    case True
    then show ?thesis by (subst show_nat.simps) (simp add: isdigit_digit_char)
  next
    case False
    with 1 have "list_all isdigit (show_nat (n div 10))" by simp
    moreover have "isdigit (digit_char (n mod 10))" by (simp add: isdigit_digit_char)
    ultimately show ?thesis using False by (subst show_nat.simps) simp
  qed
qed

lemma show_nat_nonempty: "show_nat n \<noteq> []"
  by (subst show_nat.simps) simp

lemma dec_value_snoc: "dec_value (ds @ [c]) = 10 * dec_value ds + digit_value c"
  by (simp add: dec_value_def)

lemma dec_value_show_nat: "dec_value (show_nat n) = n"
proof (induction n rule: show_nat.induct)
  case (1 n)
  show ?case
  proof (cases "n < 10")
    case True
    then show ?thesis
      by (subst show_nat.simps) (simp add: dec_value_def digit_value_digit_char)
  next
    case False
    with 1 have "dec_value (show_nat (n div 10)) = n div 10" by simp
    then have "dec_value (show_nat (n div 10) @ [digit_char (n mod 10)]) = n"
      by (simp add: dec_value_snoc digit_value_digit_char)
    with False show ?thesis by (subst show_nat.simps) simp
  qed
qed

lemma isdigit_not_newline: "isdigit c \<Longrightarrow> c \<noteq> CHR 0x0A"
  by (auto simp: isdigit_def)

lemma isdigit_not_space: "isdigit c \<Longrightarrow> \<not> isspace c"
  by (auto simp: isdigit_def isspace_def)

lemma newline_not_in_show_int: "CHR 0x0A \<notin> set (show_int i)"
proof -
  have "CHR 0x0A \<notin> set (show_nat n)" for n
    using show_nat_digits [of n] by (auto simp: list_all_iff dest: isdigit_not_newline)
  then show ?thesis by (simp add: show_int_def)
qed

lemma text_lines_index_text:
  "list_all (\<lambda>(k, off). CHR 0x0A \<notin> set k) entries \<Longrightarrow>
    text_lines (index_text entries) = map (\<lambda>(k, off). k @ '' '' @ show_int off) entries"
proof (induction entries)
  case Nil
  show ?case by (simp add: index_text_def text_lines_Nil)
next
  case (Cons e entries)
  obtain k off where e: "e = (k, off)" by (cases e)
  from Cons.prems e have k: "CHR 0x0A \<notin> set (k @ '' '' @ show_int off)"
    by (simp add: newline_not_in_show_int)
  have "index_text (e # entries) = (k @ '' '' @ show_int off) @ CHR 0x0A # index_text entries"
    by (simp add: index_text_def index_line_def e)
  moreover from k have "text_lines ((k @ '' '' @ show_int off) @ CHR 0x0A # index_text entries)
      = (k @ '' '' @ show_int off) # text_lines (index_text entries)"
    by (rule text_lines_line)
  ultimately have "text_lines (index_text (e # entries))
      = (k @ '' '' @ show_int off) # text_lines (index_text entries)"
    by (simp only:)
  with Cons show ?case by (simp add: e)
qed

text \<open>
  C4 (as amended).  For every store whose header and declared frames are there in full
  and in which no key token contains a line feed, the index builder succeeds and the
  lines of the index it writes are, frame by frame and in the order of the frames, the
  line \<open>key offset\<close> of that frame: exactly one line per frame, as many lines as the
  record count of the header declares.  Whether a payload decodes as a record plays no
  part, only its first token is read.
\<close>

theorem index_one_line_per_frame:
  assumes "files fs dataFilename = Some bytes" and "can_write fs indexFilename"
    and "dataFilename \<noteq> indexFilename"
    and "store_layout bytes = Some (recordCount, frames)"
    and "list_all (\<lambda>(off, payload). CHR 0x0A \<notin> set (key_token payload)) frames"
  shows "createPrimaryKeyIndex fs dataFilename indexFilename =
      (Returns True, fs\<lparr>files := (files fs)(indexFilename \<mapsto> index_text (index_entries frames))\<rparr>)
    \<and> text_lines (index_text (index_entries frames)) =
        map (\<lambda>(off, payload). key_token payload @ '' '' @ show_int (int off)) frames
    \<and> length (text_lines (index_text (index_entries frames))) = unat recordCount"
proof -
  from assms(1-4) have c: "createPrimaryKeyIndex fs dataFilename indexFilename =
      (Returns True, fs\<lparr>files := (files fs)(indexFilename \<mapsto> index_text (index_entries frames))\<rparr>)"
    by (rule createPrimaryKeyIndex_layout)
  from assms(4) obtain p where "frames_at (unat recordCount) p bytes = Some frames"
    by (auto simp: store_layout_def Let_def split: if_splits)
  then have n: "length frames = unat recordCount"
    by (rule frames_at_length)
  from assms(5) have "list_all (\<lambda>(k, off). CHR 0x0A \<notin> set k) (index_entries frames)"
    by (simp add: index_entries_def list_all_iff case_prod_unfold)
  then have "text_lines (index_text (index_entries frames))
      = map (\<lambda>(k, off). k @ '' '' @ show_int off) (index_entries frames)"
    by (rule text_lines_index_text)
  then have l: "text_lines (index_text (index_entries frames)) =
      map (\<lambda>(off, payload). key_token payload @ '' '' @ show_int (int off)) frames"
    by (simp add: index_entries_def comp_def case_prod_unfold)
  from c l n show ?thesis
    by simp
qed

theorem index_one_line_per_frame_witness:
  "createPrimaryKeyIndex damaged_fs ''us_postal_codes.dat'' ''primary_key_index.dat'' =
      (Returns True, damaged_fs\<lparr>files := (files damaged_fs)(''primary_key_index.dat'' \<mapsto>
         ''00001 33'' @ [CHR 0x0A] @ ''00002 53'' @ [CHR 0x0A])\<rparr>)
    \<and> text_lines (''00001 33'' @ [CHR 0x0A] @ ''00002 53'' @ [CHR 0x0A]) = [''00001 33'', ''00002 53'']
    \<and> length (text_lines (''00001 33'' @ [CHR 0x0A] @ ''00002 53'' @ [CHR 0x0A])) = unat (2 :: 32 word)
    \<and> decode whole_numbers ''00002,B,CA,Y,,4'' = Inl invalid_argument"
proof -
  have f: "files damaged_fs ''us_postal_codes.dat'' = Some damaged_store"
    by (simp add: damaged_fs_def)
  have w: "can_write damaged_fs ''primary_key_index.dat''"
    by (simp add: damaged_fs_def)
  have n: "''us_postal_codes.dat'' \<noteq> ''primary_key_index.dat''"
    by simp
  have k: "list_all (\<lambda>(off, payload). CHR 0x0A \<notin> set (key_token payload))
      [(33::nat, ''00001,A,NY,X,1,2''), (53, ''00002,B,CA,Y,,4'')]"
    by code_simp
  have t: "index_text (index_entries [(33, ''00001,A,NY,X,1,2''), (53, ''00002,B,CA,Y,,4'')])
      = ''00001 33'' @ [CHR 0x0A] @ ''00002 53'' @ [CHR 0x0A]"
    by code_simp
  have m: "map (\<lambda>(off, payload). key_token payload @ '' '' @ show_int (int off))
      [(33::nat, ''00001,A,NY,X,1,2''), (53, ''00002,B,CA,Y,,4'')] = [''00001 33'', ''00002 53'']"
    by code_simp
  have d: "decode whole_numbers ''00002,B,CA,Y,,4'' = Inl invalid_argument"
    by code_simp
  from index_one_line_per_frame [OF f w n damaged_layout k] d show ?thesis
    unfolding t m by (intro conjI) blast+
qed

text \<open>
  The statement of C4 for every complete store fails, because the key token is written
  to the index as it is: a store of one frame whose key is \<open>a\<close>, a line feed and \<open>b\<close> has
  the record count 1, and its index has the two lines \<open>a\<close> and \<open>b 33\<close>.
\<close>

theorem index_one_line_per_frame_counterexample:
  "store_layout newline_key_store = Some (1, [(33, ''a'' @ [CHR 0x0A] @ ''b,P,S,C,1,2'')])
    \<and> fst (createPrimaryKeyIndex newline_key_fs ''us_postal_codes.dat'' ''primary_key_index.dat'')
        = Returns True
    \<and> files (snd (createPrimaryKeyIndex newline_key_fs ''us_postal_codes.dat''
          ''primary_key_index.dat'')) ''primary_key_index.dat''
        = Some (''a'' @ [CHR 0x0A] @ ''b 33'' @ [CHR 0x0A])
    \<and> text_lines (''a'' @ [CHR 0x0A] @ ''b 33'' @ [CHR 0x0A]) = [''a'', ''b 33'']
    \<and> length (text_lines (''a'' @ [CHR 0x0A] @ ''b 33'' @ [CHR 0x0A])) = 2
    \<and> unat (1 :: 32 word) = 1"
  by code_simp

section \<open>The bulk loads\<close>

lemma both_coordinates_exceptions:
  "both_coordinates a b = Inl e \<Longrightarrow> e = invalid_argument \<or> e = out_of_range"
  by (auto simp: both_coordinates_def split: conversion.splits)


lemma decode_csv_exceptions: "decode_csv lib t = Inl e \<Longrightarrow> e = invalid_argument \<or> e = out_of_range"
  by (auto simp: decode_csv_def split: prod.splits sum.splits dest: both_coordinates_exceptions)

lemma keep_decoded_append:
  "keep_decoded dec ts (a @ b) = (fst (keep_decoded dec ts b), a @ snd (keep_decoded dec ts b))"
proof (induction ts arbitrary: b)
  case Nil
  show ?case by simp
next
  case (Cons t ts)
  have "keep_decoded dec ts (a @ b @ [r]) = (fst (keep_decoded dec ts (b @ [r])), a @ snd (keep_decoded dec ts (b @ [r])))" for r
    by (rule Cons.IH)
  with Cons.IH [of b] show ?case
    by (simp split: sum.splits exception.splits)
qed

lemma keep_decoded_all:
  "\<forall>t \<in> set ts. \<forall>e. dec t = Inl e \<longrightarrow> e = invalid_argument \<Longrightarrow>
    keep_decoded dec ts records = (Returns True, records @ decoded dec ts)"
proof (induction ts arbitrary: records)
  case Nil
  show ?case by (simp add: decoded_def)
next
  case (Cons t ts)
  from Cons.prems have "keep_decoded dec ts recs = (Returns True, recs @ decoded dec ts)" for recs
    by (intro Cons.IH) simp
  with Cons.prems show ?case
    by (auto simp: decoded_def split: sum.splits exception.splits)
qed

lemma length_decoded: "length (decoded dec ts) \<le> length ts"
  by (induction ts) (auto simp: decoded_def split: sum.splits)

lemma length_decoded_less:
  "t \<in> set ts \<Longrightarrow> dec t = Inl e \<Longrightarrow> length (decoded dec ts) < length ts"
proof (induction ts)
  case Nil
  then show ?case by simp
next
  case (Cons u ts)
  have le: "length (decoded dec ts) \<le> length ts"
    by (rule length_decoded)
  show ?case
  proof (cases "t = u")
    case True
    with Cons.prems le show ?thesis by (simp add: decoded_def)
  next
    case False
    with Cons have "length (decoded dec ts) < length ts" by simp
    then show ?thesis by (auto simp: decoded_def split: sum.splits)
  qed
qed


lemma decoded_member: "t \<in> set ts \<Longrightarrow> dec t = Inr r \<Longrightarrow> r \<in> set (decoded dec ts)"
  by (induction ts) (auto simp: decoded_def split: sum.splits)

lemma csv_lines_text_lines:
  "csv_lines lib rest records = keep_decoded (decode_csv lib) (text_lines rest) records"
proof (induction lib rest records rule: csv_lines.induct)
  case (1 lib rest records)
  show ?case
  proof (cases "rest = []")
    case True
    then show ?thesis
      by (subst csv_lines.simps) (simp add: text_lines_Nil)
  next
    case False
    then have t: "text_lines rest = fst (getline (CHR 0x0A) rest) # text_lines (snd (getline (CHR 0x0A) rest))"
      by (subst text_lines.simps) simp
    from False 1 show ?thesis
      by (subst csv_lines.simps) (simp add: t split: sum.splits exception.splits)
  qed
qed

lemma load_frames_append:
  "load_frames lib n s (a @ b) = (fst (load_frames lib n s b), a @ snd (load_frames lib n s b))"
proof (induction n arbitrary: s b)
  case 0
  show ?case by simp
next
  case (Suc n)
  have "load_frames lib n s' (a @ b @ [r]) =
      (fst (load_frames lib n s' (b @ [r])), a @ snd (load_frames lib n s' (b @ [r])))" for s' r
    by (rule Suc.IH)
  moreover have "load_frames lib n s' (a @ b) =
      (fst (load_frames lib n s' b), a @ snd (load_frames lib n s' b))" for s'
    by (rule Suc.IH)
  ultimately show ?case
    by (simp split: prod.splits option.splits sum.splits exception.splits)
qed

lemma loadFromCSV_append:
  "loadFromCSV lib fs filename (a @ b) =
    (fst (loadFromCSV lib fs filename b), a @ snd (loadFromCSV lib fs filename b))"
  by (simp add: loadFromCSV_def csv_lines_text_lines keep_decoded_append split: option.splits)

lemma loadFromLengthIndicatedFile_append:
  "loadFromLengthIndicatedFile lib fs filename (a @ b) =
    (fst (loadFromLengthIndicatedFile lib fs filename b),
     a @ snd (loadFromLengthIndicatedFile lib fs filename b))"
  by (simp add: loadFromLengthIndicatedFile_def load_frames_append split: option.splits prod.splits)

lemma loads_csv_example:
  "loadFromCSV whole_numbers loads_fs ''us_postal_codes_ROWS_RANDOMIZED.csv'' [] =
    (Returns True,
     [\<lparr>zipCode = ''00004'', placeName = ''D'', state = ''TX'', county = ''W'', latitude = 7, longitude = 8\<rparr>,
      \<lparr>zipCode = ''00005'', placeName = ''E'', state = ''WA'', county = ''V'', latitude = 0, longitude = 9\<rparr>])"
  by code_simp

lemma loads_store_example:
  "loadFromLengthIndicatedFile whole_numbers loads_fs ''us_postal_codes.dat'' [] =
    (Returns True,
     [\<lparr>zipCode = ''00001'', placeName = ''A'', state = ''NY'', county = ''X'', latitude = 1, longitude = 2\<rparr>])"
  by code_simp

text \<open>
  C10.  Neither bulk load clears the record container.  Whatever the outcome of the call,
  the records that the buffer held before are still there, unchanged and in front, and
  the records that the call decoded follow them; outcome and new records do not depend on
  what the buffer held.  So \<^verbatim>\<open>loadFromCSV\<close> followed by
  \<^verbatim>\<open>loadFromLengthIndicatedFile\<close>, or either of them called twice, leaves the records of
  both loads in the buffer.
\<close>

theorem loads_accumulate:
  "loadFromCSV lib fs csvFilename records =
      (fst (loadFromCSV lib fs csvFilename []), records @ snd (loadFromCSV lib fs csvFilename []))
   \<and> loadFromLengthIndicatedFile lib fs filename records =
      (fst (loadFromLengthIndicatedFile lib fs filename []),
       records @ snd (loadFromLengthIndicatedFile lib fs filename []))
   \<and> snd (loadFromLengthIndicatedFile lib fs filename (snd (loadFromCSV lib fs csvFilename records))) =
      records @ snd (loadFromCSV lib fs csvFilename []) @ snd (loadFromLengthIndicatedFile lib fs filename [])
   \<and> snd (loadFromCSV lib fs csvFilename (snd (loadFromCSV lib fs csvFilename records))) =
      records @ snd (loadFromCSV lib fs csvFilename []) @ snd (loadFromCSV lib fs csvFilename [])
   \<and> snd (loadFromLengthIndicatedFile lib fs filename
        (snd (loadFromLengthIndicatedFile lib fs filename records))) =
      records @ snd (loadFromLengthIndicatedFile lib fs filename [])
        @ snd (loadFromLengthIndicatedFile lib fs filename [])"
proof -
  have c: "loadFromCSV lib fs csvFilename recs =
      (fst (loadFromCSV lib fs csvFilename []), recs @ snd (loadFromCSV lib fs csvFilename []))" for recs
    using loadFromCSV_append [of lib fs csvFilename recs "[]"] by simp
  have l: "loadFromLengthIndicatedFile lib fs filename recs =
      (fst (loadFromLengthIndicatedFile lib fs filename []),
       recs @ snd (loadFromLengthIndicatedFile lib fs filename []))" for recs
    using loadFromLengthIndicatedFile_append [of lib fs filename recs "[]"] by simp
  have "snd (loadFromLengthIndicatedFile lib fs filename (snd (loadFromCSV lib fs csvFilename records))) =
      records @ snd (loadFromCSV lib fs csvFilename []) @ snd (loadFromLengthIndicatedFile lib fs filename [])"
    by (subst l, subst c) simp
  moreover have "snd (loadFromCSV lib fs csvFilename (snd (loadFromCSV lib fs csvFilename records))) =
      records @ snd (loadFromCSV lib fs csvFilename []) @ snd (loadFromCSV lib fs csvFilename [])"
    by (subst c, subst (2) c) simp
  moreover have "snd (loadFromLengthIndicatedFile lib fs filename
        (snd (loadFromLengthIndicatedFile lib fs filename records))) =
      records @ snd (loadFromLengthIndicatedFile lib fs filename [])
        @ snd (loadFromLengthIndicatedFile lib fs filename [])"
    by (subst l, subst (2) l) simp
  ultimately show ?thesis
    using c [of records] l [of records] by blast
qed

theorem loads_accumulate_witness:
  "snd (loadFromLengthIndicatedFile whole_numbers loads_fs ''us_postal_codes.dat''
      (snd (loadFromCSV whole_numbers loads_fs ''us_postal_codes_ROWS_RANDOMIZED.csv''
        [\<lparr>zipCode = ''00009'', placeName = ''I'', state = ''ME'', county = ''T'', latitude = 1, longitude = 1\<rparr>]))) =
    [\<lparr>zipCode = ''00009'', placeName = ''I'', state = ''ME'', county = ''T'', latitude = 1, longitude = 1\<rparr>,
     \<lparr>zipCode = ''00004'', placeName = ''D'', state = ''TX'', county = ''W'', latitude = 7, longitude = 8\<rparr>,
     \<lparr>zipCode = ''00005'', placeName = ''E'', state = ''WA'', county = ''V'', latitude = 0, longitude = 9\<rparr>,
     \<lparr>zipCode = ''00001'', placeName = ''A'', state = ''NY'', county = ''X'', latitude = 1, longitude = 2\<rparr>]"
proof -
  let ?r = "\<lparr>zipCode = ''00009'', placeName = ''I'', state = ''ME'', county = ''T'',
    latitude = 1::int, longitude = 1::int\<rparr>"
  have "snd (loadFromLengthIndicatedFile whole_numbers loads_fs ''us_postal_codes.dat''
      (snd (loadFromCSV whole_numbers loads_fs ''us_postal_codes_ROWS_RANDOMIZED.csv'' [?r]))) =
    [?r] @ snd (loadFromCSV whole_numbers loads_fs ''us_postal_codes_ROWS_RANDOMIZED.csv'' [])
      @ snd (loadFromLengthIndicatedFile whole_numbers loads_fs ''us_postal_codes.dat'' [])"
    using loads_accumulate [of whole_numbers loads_fs "''us_postal_codes_ROWS_RANDOMIZED.csv''"
      "[?r]" "''us_postal_codes.dat''"]
    by blast
  then show ?thesis
    by (simp only: loads_csv_example loads_store_example snd_conv append.simps)
qed

section \<open>A frame that does not decode\<close>








section \<open>Empty coordinate fields on the two bulk paths\<close>

lemma loadFromCSV_decoded:
  assumes "files fs filename = Some csv"
    and "\<forall>l \<in> set (text_lines (snd (getline (CHR 0x0A) csv))). decode_csv lib l \<noteq> Inl out_of_range"
  shows "loadFromCSV lib fs filename records =
    (Returns True, records @ decoded (decode_csv lib) (text_lines (snd (getline (CHR 0x0A) csv))))"
proof -
  let ?ls = "text_lines (snd (getline (CHR 0x0A) csv))"
  from assms(2) have "\<forall>t \<in> set ?ls. \<forall>e. decode_csv lib t = Inl e \<longrightarrow> e = invalid_argument"
    by (fastforce dest: decode_csv_exceptions)
  then have "keep_decoded (decode_csv lib) ?ls records =
      (Returns True, records @ decoded (decode_csv lib) ?ls)"
    by (rule keep_decoded_all)
  with assms(1) show ?thesis
    by (simp add: loadFromCSV_def csv_lines_text_lines)
qed











section \<open>The written store\<close>

lemma foldl_write_record:
  "foldl (write_record lib) out records =
    out @ concat (map (\<lambda>r. bytes_u32 (of_nat (length (encode lib r))) @ encode lib r) records)"
  by (induction records arbitrary: out) (simp_all add: write_record_def Let_def)

lemma written_header_eq:
  "written_header records =
    ''ZipCodeLengthIndicated'' @ [CHR 0x00] @ bytes_u16 1 @ bytes_u32 33 @
    bytes_u32 (of_nat (length records))"
  by (simp add: written_header_def Let_def)

lemma length_written_header: "length (written_header records) = 33"
  by (simp add: written_header_eq length_bytes_u16 length_bytes_u32)

lemma written_store_eq:
  "written_store lib records =
    written_header records @
    concat (map (\<lambda>r. bytes_u32 (of_nat (length (encode lib r))) @ encode lib r) records)"
  by (simp add: written_store_def foldl_write_record)

lemma unat_of_nat_u32: "n < 2 ^ 32 \<Longrightarrow> unat (of_nat n :: 32 word) = n"
  by (simp add: unat_of_nat)

lemma frames_at_concat:
  assumes "\<forall>p \<in> set ps. length p < 2 ^ 32"
  shows "frames_at (length ps) (length pre)
      (pre @ concat (map (\<lambda>p. bytes_u32 (of_nat (length p)) @ p) ps) @ post)
    = Some (zip (frame_offsets (length pre) ps) ps)"
  using assms
proof (induction ps arbitrary: pre)
  case Nil
  show ?case by simp
next
  case (Cons p ps)
  let ?L = "of_nat (length p) :: 32 word"
  let ?rest = "concat (map (\<lambda>p. bytes_u32 (of_nat (length p)) @ p) ps) @ post"
  let ?bytes = "pre @ concat (map (\<lambda>p. bytes_u32 (of_nat (length p)) @ p) (p # ps)) @ post"
  have b: "?bytes = pre @ bytes_u32 ?L @ p @ ?rest"
    by simp
  have t: "take 4 (drop (length pre) ?bytes) = bytes_u32 ?L"
    unfolding b by (simp add: length_bytes_u32)
  from Cons.prems have len: "unat ?L = length p"
    by (simp add: unat_of_nat_u32)
  have d: "drop (length pre + 4) ?bytes = p @ ?rest"
    unfolding b using length_bytes_u32 [of ?L] by (simp add: drop_append)
  have l: "length ?bytes = length pre + 4 + length p + length ?rest"
    unfolding b by (simp add: length_bytes_u32)
  from Cons.prems have "frames_at (length ps) (length (pre @ bytes_u32 ?L @ p))
      ((pre @ bytes_u32 ?L @ p) @ ?rest)
    = Some (zip (frame_offsets (length (pre @ bytes_u32 ?L @ p)) ps) ps)"
    by (intro Cons.IH) simp
  then have ih: "frames_at (length ps) (length pre + 4 + length p) ?bytes
    = Some (zip (frame_offsets (length pre + 4 + length p) ps) ps)"
    unfolding b by (simp add: length_bytes_u32 add.assoc)
  show ?case
    using ih l by (simp only: length_Cons frames_at.simps t u32_of_bytes_u32 len Let_def d
      frame_offsets.simps zip_Cons_Cons) simp
qed

lemma store_layout_written:
  assumes "length records < 2 ^ 32" and "\<forall>r \<in> set records. length (encode lib r) < 2 ^ 32"
  shows "store_layout (written_store lib records) =
    Some (of_nat (length records),
      zip (frame_offsets 33 (map (encode lib) records)) (map (encode lib) records))"
proof -
  let ?N = "of_nat (length records) :: 32 word"
  let ?h = "''ZipCodeLengthIndicated'' @ [CHR 0x00] @ bytes_u16 1 @ bytes_u32 33"
  let ?fr = "concat (map (\<lambda>p. bytes_u32 (of_nat (length p)) @ p) (map (encode lib) records))"
  have w: "written_store lib records = (?h @ bytes_u32 ?N) @ ?fr @ []"
    by (simp add: written_store_eq written_header_eq comp_def)
  have lh: "length (?h @ bytes_u32 ?N) = 33"
    by (simp add: length_bytes_u16 length_bytes_u32)
  have tw: "takeWhile (\<lambda>c. c \<noteq> CHR 0x00) (written_store lib records) = ''ZipCodeLengthIndicated''"
    unfolding w by simp
  have n: "take 4 (drop 29 (written_store lib records)) = bytes_u32 ?N"
    unfolding w using length_bytes_u16 [of 1] length_bytes_u32 [of 33] length_bytes_u32 [of ?N]
    by (simp add: drop_append)
  from assms(1) have un: "unat ?N = length records"
    by (simp add: unat_of_nat_u32)
  from assms(2) have "frames_at (length (map (encode lib) records)) (length (?h @ bytes_u32 ?N))
      ((?h @ bytes_u32 ?N) @ ?fr @ [])
    = Some (zip (frame_offsets (length (?h @ bytes_u32 ?N)) (map (encode lib) records))
        (map (encode lib) records))"
    by (intro frames_at_concat) simp
  then have fr: "frames_at (length records) 33 (written_store lib records)
    = Some (zip (frame_offsets 33 (map (encode lib) records)) (map (encode lib) records))"
    unfolding w [symmetric] lh by simp
  have len: "\<not> length (written_store lib records) < 33"
    unfolding w by (simp add: length_bytes_u16 length_bytes_u32)
  from len show ?thesis
    by (simp add: store_layout_def tw Let_def n u32_of_bytes_u32 un fr)
qed

lemma example_encodings:
  "map (encode whole_numbers) example_records =
    [''00001,A,NY,X,1,2'', ''00002,B,CA,Y,3,4'', ''00003,C,NY,Z,5,6'']"
  by code_simp

lemma show_int_0: "show_int 0 = ''0''"
  by code_simp

text \<open>
  C8 (as amended).  For every record sequence with fewer than \<open>2\<^sup>3\<^sup>2\<close> records, each with
  a record text shorter than \<open>2\<^sup>3\<^sup>2\<close> bytes, the writer (when it can open the output
  file) produces a file that is: the header, whose record count is the number of records;
  then, for each record in input order, a 32-bit length that is the byte length of the
  text of that record, and that text.  Read back frame by frame, the file holds exactly
  these frames and nothing else.
\<close>

theorem written_frames:
  assumes "can_write fs outputFilename"
    and "length records < 2 ^ 32"
    and "\<forall>r \<in> set records. length (encode lib r) < 2 ^ 32"
  shows "convertToLengthIndicatedFile lib fs inputFilename outputFilename records =
      (True, fs\<lparr>files := (files fs)(outputFilename \<mapsto> written_store lib records)\<rparr>)
    \<and> written_store lib records =
        ''ZipCodeLengthIndicated'' @ [CHR 0x00] @ bytes_u16 1 @ bytes_u32 33 @
        bytes_u32 (of_nat (length records)) @
        concat (map (\<lambda>r. bytes_u32 (of_nat (length (encode lib r))) @ encode lib r) records)
    \<and> unat (of_nat (length records) :: 32 word) = length records
    \<and> (\<forall>r \<in> set records. unat (of_nat (length (encode lib r)) :: 32 word) = length (encode lib r))
    \<and> store_layout (written_store lib records) =
        Some (of_nat (length records),
          zip (frame_offsets 33 (map (encode lib) records)) (map (encode lib) records))"
proof -
  from assms(1) have c: "convertToLengthIndicatedFile lib fs inputFilename outputFilename records =
      (True, fs\<lparr>files := (files fs)(outputFilename \<mapsto> written_store lib records)\<rparr>)"
    by (simp add: convertToLengthIndicatedFile_def)
  have w: "written_store lib records =
        ''ZipCodeLengthIndicated'' @ [CHR 0x00] @ bytes_u16 1 @ bytes_u32 33 @
        bytes_u32 (of_nat (length records)) @
        concat (map (\<lambda>r. bytes_u32 (of_nat (length (encode lib r))) @ encode lib r) records)"
    by (simp add: written_store_eq written_header_eq)
  from assms(2) have n: "unat (of_nat (length records) :: 32 word) = length records"
    by (rule unat_of_nat_u32)
  from assms(3) have l: "\<forall>r \<in> set records.
      unat (of_nat (length (encode lib r)) :: 32 word) = length (encode lib r)"
    by (simp add: unat_of_nat_u32)
  from assms(2,3) have s: "store_layout (written_store lib records) =
        Some (of_nat (length records),
          zip (frame_offsets 33 (map (encode lib) records)) (map (encode lib) records))"
    by (rule store_layout_written)
  from c w n l s show ?thesis
    by (intro conjI)
qed

theorem written_frames_witness:
  "convertToLengthIndicatedFile whole_numbers damaged_fs ''us_postal_codes_ROWS_RANDOMIZED.csv''
      ''us_postal_codes.dat'' example_records =
      (True, damaged_fs\<lparr>files := (files damaged_fs)(''us_postal_codes.dat'' \<mapsto> example_store)\<rparr>)
    \<and> unat (of_nat (length example_records) :: 32 word) = length example_records
    \<and> store_layout example_store =
        Some (of_nat (length example_records),
          zip (frame_offsets 33 [''00001,A,NY,X,1,2'', ''00002,B,CA,Y,3,4'', ''00003,C,NY,Z,5,6''])
            [''00001,A,NY,X,1,2'', ''00002,B,CA,Y,3,4'', ''00003,C,NY,Z,5,6''])"
proof -
  have w: "can_write damaged_fs ''us_postal_codes.dat''"
    by (simp add: damaged_fs_def)
  have n: "length example_records < 2 ^ 32"
    by (simp add: example_records_def)
  have l: "\<forall>r \<in> set example_records. length (encode whole_numbers r) < 2 ^ 32"
  proof -
    have "\<forall>t \<in> set (map (encode whole_numbers) example_records). length t < 2 ^ 32"
      unfolding example_encodings by simp
    then show ?thesis by simp
  qed
  note a = written_frames [OF w n l, of "''us_postal_codes_ROWS_RANDOMIZED.csv''"]
  from a show ?thesis
    unfolding example_encodings example_store_def by blast
qed

text \<open>
  The statement of C8 for every record sequence fails, because the length is narrowed to
  32 bits while the whole text is written: a record whose place name has \<open>2\<^sup>3\<^sup>2\<close>
  characters has a text of 4294967303 bytes, and the length field in front of it says 7.
\<close>

theorem written_frames_counterexample:
  "unat (u32_of_bytes (take 4 (drop 33 (written_store whole_numbers
      [\<lparr>zipCode = [], placeName = replicate 4294967296 CHR ''a'', state = [], county = [],
        latitude = 0, longitude = 0\<rparr>])))) = 7
    \<and> length (encode whole_numbers
      \<lparr>zipCode = [], placeName = replicate 4294967296 CHR ''a'', state = [], county = [],
        latitude = 0, longitude = 0\<rparr>) = 4294967303
    \<and> unat (u32_of_bytes (take 4 (drop 33 (written_store whole_numbers
      [\<lparr>zipCode = [], placeName = replicate 4294967296 CHR ''a'', state = [], county = [],
        latitude = 0, longitude = 0\<rparr>])))) \<noteq>
      length (encode whole_numbers
        \<lparr>zipCode = [], placeName = replicate 4294967296 CHR ''a'', state = [], county = [],
          latitude = 0, longitude = 0\<rparr>)"
proof -
  let ?r = "\<lparr>zipCode = [], placeName = replicate 4294967296 CHR ''a'', state = [], county = [],
        latitude = 0::int, longitude = 0::int\<rparr>"
  have l: "length (encode whole_numbers ?r) = 4294967303"
    by (simp add: encode_def whole_numbers_def show_int_0)
  have "(of_nat 4294967303 :: 32 word) = 7"
    by simp
  with l have f: "(of_nat (length (encode whole_numbers ?r)) :: 32 word) = 7"
    by simp
  have "written_store whole_numbers [?r] =
      written_header [?r] @ bytes_u32 7 @ encode whole_numbers ?r"
    by (simp add: written_store_eq f)
  then have "take 4 (drop 33 (written_store whole_numbers [?r])) = bytes_u32 7"
    using length_written_header [of "[?r]"] length_bytes_u32 [of 7] by simp
  then have "unat (u32_of_bytes (take 4 (drop 33 (written_store whole_numbers [?r])))) = 7"
    by (simp add: u32_of_bytes_u32)
  with l show ?thesis
    by simp
qed

section \<open>The header\<close>











section \<open>The lookup\<close>

lemma isdigit_not_sign: "isdigit c \<Longrightarrow> c \<noteq> CHR ''-'' \<and> c \<noteq> CHR ''+''"
  by (auto simp: isdigit_def)

lemma show_nat_hd: "isdigit (hd (show_nat n))"
  using show_nat_digits [of n] show_nat_nonempty [of n]
  by (cases "show_nat n") simp_all

lemma takeWhile_all_then_stop:
  "list_all P xs \<Longrightarrow> ys = [] \<or> \<not> P (hd ys) \<Longrightarrow> takeWhile P (xs @ ys) = xs"
proof (induction xs)
  case Nil
  then show ?case by (cases ys) auto
next
  case (Cons x xs)
  then show ?case by simp
qed

lemma dropWhile_all_then_stop:
  "list_all P xs \<Longrightarrow> ys = [] \<or> \<not> P (hd ys) \<Longrightarrow> dropWhile P (xs @ ys) = ys"
proof (induction xs)
  case Nil
  then show ?case by (cases ys) auto
next
  case (Cons x xs)
  then show ?case by simp
qed

lemma get_streamoff_show_int:
  assumes "file_offset off" and "rest = [] \<or> \<not> isdigit (hd rest)"
  shows "get_streamoff (show_int off @ rest) = Some (off, rest)"
proof -
  let ?ds = "show_nat (nat off)"
  from assms(1) have s: "show_int off = ?ds"
    by (simp add: show_int_def file_offset_def)
  obtain c t where ct: "?ds = c # t"
    using show_nat_nonempty [of "nat off"] by (cases ?ds) auto
  with show_nat_hd [of "nat off"] have c: "c \<noteq> CHR ''-''" "c \<noteq> CHR ''+''"
    by (auto dest: isdigit_not_sign)
  have tk: "takeWhile isdigit (?ds @ rest) = ?ds"
    using show_nat_digits assms(2) by (rule takeWhile_all_then_stop)
  have dr: "dropWhile isdigit (?ds @ rest) = rest"
    using show_nat_digits assms(2) by (rule dropWhile_all_then_stop)
  have sign: "(case ?ds @ rest of
          c # t \<Rightarrow> if c = CHR ''-'' then (True, t)
                   else if c = CHR ''+'' then (False, t) else (False, ?ds @ rest)
        | [] \<Rightarrow> (False, ?ds @ rest)) = (False, ?ds @ rest)"
    using c by (simp add: ct)
  from assms(1) have v: "int (dec_value ?ds) = off" and r: "\<not> 2 ^ 63 \<le> off" "\<not> off < - (2 ^ 63)"
    by (simp_all add: dec_value_show_nat file_offset_def)
  show ?thesis
    unfolding s get_streamoff_def sign
    using v r show_nat_nonempty [of "nat off"] by (simp add: tk dr)
qed

lemma index_scan_Nil: "index_scan [] zip_code = - 1"
  by (simp add: index_scan.simps [of "[]"])

lemma index_scan_skip:
  "isspace c \<Longrightarrow> index_scan (c # rest) zip_code = index_scan rest zip_code"
  by (simp add: index_scan.simps [of "c # rest"] index_scan.simps [of rest])

lemma index_scan_line:
  assumes "token_key k" and "file_offset off"
  shows "index_scan (index_line k off @ rest) zip_code =
    (if k = zip_code then off else index_scan rest zip_code)"
proof -
  let ?tail = "show_int off @ CHR 0x0A # rest"
  let ?t = "k @ CHR '' '' # ?tail"
  from assms(1) have ne: "k \<noteq> []" and ns: "list_all (\<lambda>c. \<not> isspace c) k"
    by (simp_all add: token_key_def)
  have sp: "isspace (CHR '' '')" and nl: "isspace (CHR 0x0A)"
    by (simp_all add: isspace_def)
  have t: "index_line k off @ rest = ?t"
    by (simp add: index_line_def)
  from ne ns have r1: "dropWhile isspace ?t = ?t"
    by (cases k) simp_all
  from ns sp have tk: "takeWhile (\<lambda>c. \<not> isspace c) ?t = k"
    by (intro takeWhile_all_then_stop) simp_all
  from ns sp have dk: "dropWhile (\<lambda>c. \<not> isspace c) ?t = CHR '' '' # ?tail"
    by (intro dropWhile_all_then_stop) simp_all
  from assms(2) have si: "show_int off = show_nat (nat off)"
    by (simp add: show_int_def file_offset_def)
  obtain c u where cu: "show_nat (nat off) = c # u"
    using show_nat_nonempty [of "nat off"] by (cases "show_nat (nat off)") auto
  with show_nat_hd [of "nat off"] have "\<not> isspace c"
    by (auto dest: isdigit_not_space)
  then have r2: "dropWhile isspace ?tail = ?tail"
    by (simp add: si cu)
  have "\<not> isdigit (CHR 0x0A)"
    by (simp add: isdigit_def)
  with assms(2) have g: "get_streamoff ?tail = Some (off, CHR 0x0A # rest)"
    by (intro get_streamoff_show_int) simp_all
  from ne have "index_scan ?t zip_code =
      (if k = zip_code then off else index_scan (CHR 0x0A # rest) zip_code)"
    by (simp add: index_scan.simps [of ?t] r1 tk dk sp r2 g Let_def)
  with nl show ?thesis
    by (simp only: t index_scan_skip)
qed

lemma index_scan_index_text:
  "list_all (\<lambda>(k, off). token_key k \<and> file_offset off) entries \<Longrightarrow>
    index_scan (index_text entries) zip_code =
      (case first_match entries zip_code of None \<Rightarrow> - 1 | Some off \<Rightarrow> off)"
proof (induction entries)
  case Nil
  show ?case by (simp add: index_text_def first_match_def index_scan_Nil)
next
  case (Cons e entries)
  obtain k off where e: "e = (k, off)" by (cases e)
  from Cons.prems e have k: "token_key k" and off: "file_offset off"
    by simp_all
  have "index_text (e # entries) = index_line k off @ index_text entries"
    by (simp add: index_text_def e)
  with index_scan_line [OF k off, of "index_text entries" zip_code]
  have "index_scan (index_text (e # entries)) zip_code =
      (if k = zip_code then off else index_scan (index_text entries) zip_code)"
    by (simp only:)
  moreover from Cons.prems have "index_scan (index_text entries) zip_code =
      (case first_match entries zip_code of None \<Rightarrow> - 1 | Some off \<Rightarrow> off)"
    by (intro Cons.IH) simp
  ultimately show ?case
    by (simp add: e first_match_def)
qed

lemma first_match_none: "k \<notin> fst ` set entries \<Longrightarrow> first_match entries k = None"
  by (induction entries) (auto simp: first_match_def)

lemma first_match_first:
  "k \<notin> fst ` set before \<Longrightarrow> first_match (before @ (k, off) # after) k = Some off"
  by (induction before) (auto simp: first_match_def)

text \<open>
  C3 (as amended).  Let the index file consist of index lines \<open>key offset\<close> in which every
  key is a token (not empty, without white space) and every offset is a file offset (not
  negative, below \<open>2\<^sup>6\<^sup>3\<close>).  Then for every requested key the lookup returns the
  offset of the first line, from the top, whose key is the requested key, whatever lines
  with the same key follow; and it returns \<open>-1\<close>, not found, when no line has that key.
\<close>

theorem lookup_first_match:
  assumes "files fs indexFilename = Some (index_text entries)"
    and "list_all (\<lambda>(k, off). token_key k \<and> file_offset off) entries"
  shows "searchPrimaryKey fs indexFilename zip_code =
      (case first_match entries zip_code of None \<Rightarrow> - 1 | Some off \<Rightarrow> off, [])
    \<and> (zip_code \<notin> fst ` set entries \<longrightarrow>
        searchPrimaryKey fs indexFilename zip_code = (- 1, []))
    \<and> (\<forall>before off after.
          entries = before @ (zip_code, off) # after \<and> zip_code \<notin> fst ` set before \<longrightarrow>
          searchPrimaryKey fs indexFilename zip_code = (off, []) \<and> off \<noteq> - 1)"
proof -
  from assms(2) have "index_scan (index_text entries) zip_code =
      (case first_match entries zip_code of None \<Rightarrow> - 1 | Some off \<Rightarrow> off)"
    by (rule index_scan_index_text)
  with assms(1) have s: "searchPrimaryKey fs indexFilename zip_code =
      (case first_match entries zip_code of None \<Rightarrow> - 1 | Some off \<Rightarrow> off, [])"
    by (simp add: searchPrimaryKey_def)
  have n: "searchPrimaryKey fs indexFilename zip_code = (- 1, [])"
    if "zip_code \<notin> fst ` set entries"
    using that s by (simp add: first_match_none)
  have f: "searchPrimaryKey fs indexFilename zip_code = (off, []) \<and> off \<noteq> - 1"
    if "entries = before @ (zip_code, off) # after" and "zip_code \<notin> fst ` set before"
    for before off after
  proof -
    from that have "first_match entries zip_code = Some off"
      by (simp add: first_match_first)
    moreover from assms(2) that(1) have "file_offset off"
      by simp
    ultimately show ?thesis
      using s by (simp add: file_offset_def)
  qed
  from s n f show ?thesis
    by blast
qed

theorem lookup_first_match_witness:
  "searchPrimaryKey
      \<lparr>files = [''primary_key_index.dat'' \<mapsto>
         index_text [(''00001'', 33), (''00002'', 53), (''00002'', 73)]],
       can_write = (\<lambda>path. True)\<rparr> ''primary_key_index.dat'' ''00002'' = (53, [])
    \<and> searchPrimaryKey
      \<lparr>files = [''primary_key_index.dat'' \<mapsto>
         index_text [(''00001'', 33), (''00002'', 53), (''00002'', 73)]],
       can_write = (\<lambda>path. True)\<rparr> ''primary_key_index.dat'' ''99999'' = (- 1, [])"
proof -
  let ?fs = "\<lparr>files = [''primary_key_index.dat'' \<mapsto>
         index_text [(''00001'', 33), (''00002'', 53), (''00002'', 73)]],
       can_write = (\<lambda>path. True)\<rparr>"
  have f: "files ?fs ''primary_key_index.dat'' =
      Some (index_text [(''00001'', 33), (''00002'', 53), (''00002'', 73)])"
    by simp
  have t: "list_all (\<lambda>(k, off). token_key k \<and> file_offset off)
      [(''00001'', 33), (''00002'', 53), (''00002'', 73)]"
    by code_simp
  have m: "first_match [(''00001'', 33), (''00002'', 53), (''00002'', 73)] ''00002'' = Some 53"
    and n: "first_match [(''00001'', 33), (''00002'', 53), (''00002'', 73)] ''99999'' = None"
    by code_simp+
  from lookup_first_match [OF f t, of "''00002''"]
  have "searchPrimaryKey ?fs ''primary_key_index.dat'' ''00002'' =
      (case first_match [(''00001'', 33), (''00002'', 53), (''00002'', 73)] ''00002'' of
         None \<Rightarrow> - 1 | Some off \<Rightarrow> off, [])"
    by (rule conjunct1)
  moreover from lookup_first_match [OF f t, of "''99999''"]
  have "searchPrimaryKey ?fs ''primary_key_index.dat'' ''99999'' =
      (case first_match [(''00001'', 33), (''00002'', 53), (''00002'', 73)] ''99999'' of
         None \<Rightarrow> - 1 | Some off \<Rightarrow> off, [])"
    by (rule conjunct1)
  ultimately show ?thesis
    unfolding m n by simp
qed

text \<open>
  The statement of C3 for every index file fails, because the lookup reads the file as
  white-space separated tokens, not line by line.  A blank line in the CSV file is loaded
  as a record whose fields are all empty, and the index line of its frame is a space and
  the offset (\<open>blank_line_index\<close>).  On such an index the lookup takes \<open>33\<close> for a key
  and \<open>00002\<close> for its offset, then \<open>44\<close> for a key, for which no offset is left, so the
  loop ends: the key \<open>00002\<close> of the second line is never compared and is reported as not
  found.
\<close>

lemma blank_line_index:
  "(case loadFromCSV whole_numbers
      \<lparr>files = [''in.csv'' \<mapsto> ''ZipCode,Place,State,County,Lat,Long'' @ [CHR 0x0A] @ [CHR 0x0A] @
         ''00002,B,CA,Y,3,4'' @ [CHR 0x0A]], can_write = (\<lambda>path. True)\<rparr> ''in.csv'' [] of
      (result, records) \<Rightarrow>
        map_option (\<lambda>(n, frames). index_text (index_entries frames))
          (store_layout (written_store whole_numbers records)))
    = Some (index_text [([], 33), (''00002'', 44)])"
  by code_simp

text \<open>
  The counterexample to C3: the second line of the index has the key \<open>00002\<close>, the first
  matching entry has offset 44, and the lookup returns \<open>-1\<close>.
\<close>

theorem lookup_first_match_counterexample:
  "index_text [([], 33), (''00002'', 44)] = '' 33'' @ [CHR 0x0A] @ ''00002 44'' @ [CHR 0x0A]
    \<and> first_match [([], 33), (''00002'', 44)] ''00002'' = Some 44
    \<and> searchPrimaryKey
      \<lparr>files = [''primary_key_index.dat'' \<mapsto> '' 33'' @ [CHR 0x0A] @ ''00002 44'' @ [CHR 0x0A]],
       can_write = (\<lambda>path. True)\<rparr> ''primary_key_index.dat'' ''00002'' = (- 1, [])"
  by code_simp

section \<open>An index file that cannot be opened\<close>

text \<open>
  C6 (as amended).  When the index file cannot be opened, \<^verbatim>\<open>searchPrimaryKey\<close> writes
  one line to the error stream and returns \<open>-1\<close>, the value it returns for a key that is
  not in the index; \<^verbatim>\<open>searchZipCode\<close>, its caller, then reports the key as not found
  and returns normally.
\<close>

theorem index_open_failure:
  assumes "files fs indexFilename = None"
  shows "searchPrimaryKey fs indexFilename zip_code =
      (- 1, [''Unable to open index file: '' @ indexFilename])
    \<and> (indexFilename = ''primary_key_index.dat'' \<longrightarrow>
        searchZipCode lib fs zip_code =
          (Returns (NotFoundPrinted zip_code), [''Unable to open index file: '' @ indexFilename]))"
  using assms by (auto simp: searchPrimaryKey_def searchZipCode_def Let_def)

theorem index_open_failure_witness:
  "searchPrimaryKey damaged_fs ''primary_key_index.dat'' ''00001'' =
      (- 1, [''Unable to open index file: primary_key_index.dat''])
    \<and> searchZipCode whole_numbers damaged_fs ''00001'' =
      (Returns (NotFoundPrinted ''00001''), [''Unable to open index file: primary_key_index.dat''])"
proof -
  have "files damaged_fs ''primary_key_index.dat'' = None"
    by (simp add: damaged_fs_def)
  from index_open_failure [OF this, of "''00001''" whole_numbers] show ?thesis
    by simp
qed

text \<open>
  The statement of C6 fails: with no index file the lookup of a key ends with the same
  not-found result as the lookup of an absent key in an index that opens, and
  \<^verbatim>\<open>searchPrimaryKey\<close> returns the same value in both cases.
\<close>

theorem index_open_failure_counterexample:
  "files damaged_fs ''primary_key_index.dat'' = None
    \<and> fst (searchZipCode whole_numbers damaged_fs ''00001'') = Returns (NotFoundPrinted ''00001'')
    \<and> fst (searchZipCode whole_numbers example_fs ''99999'') = Returns (NotFoundPrinted ''99999'')
    \<and> fst (searchPrimaryKey damaged_fs ''primary_key_index.dat'' ''00001'') =
        fst (searchPrimaryKey example_fs ''primary_key_index.dat'' ''99999'')"
  by code_simp

end
